theory Spec2Isabelle
  imports Complex_Main
begin

section \<open>Data model\<close>

text \<open>
  The documents of \<^verbatim>\<open>backend/models/Review.js\<close> and \<^verbatim>\<open>backend/models/Book.js\<close>
  as records. An ObjectId is a natural number. A JavaScript Number is a rational: the
  arithmetic of the rating average is exact here, and the rounding to a double of the
  JavaScript runtime is outside the model. Strings are the values left by Mongoose's
  casting and \<^verbatim>\<open>trim\<close> setters; a field of an enumerated schema type is a datatype,
  so that a value outside the enumeration cannot be written down.
\<close>

type_synonym user_id = nat
type_synonym book_id = nat
type_synonym review_id = nat

datatype role = RoleUser | RoleAdmin

datatype reading_status = WantToRead | CurrentlyReading | Read | DNF

datatype book_format = Hardcover | Paperback | Ebook | Audiobook | OtherFormat

datatype currency_code = USD | EUR | GBP | CAD | AUD | JPY | INR

text \<open>The sub-document shared by \<^verbatim>\<open>helpful\<close> and \<^verbatim>\<open>likes\<close>: a counter and an array of users.\<close>

record votes =
  count :: int
  users :: "user_id list"

record review =
  user :: user_id
  book :: book_id
  rating :: rat
  title :: string
  content :: string
  spoilerAlert :: bool
  helpful :: votes
  likes :: votes
  isVerified :: bool
  isActive :: bool
  tags :: "string list"
  readingStatus :: reading_status
  readDate :: "nat option"
  format :: book_format
  purchaseSource :: "string option"
  price :: "rat option"
  currency :: currency_code

text \<open>Of a book, the fields that the review routes read or write.\<close>

record book_doc =
  averageRating :: rat
  totalRatings :: int
  bookIsActive :: bool

text \<open>
  Modelled from the spec: the user document, whose schema \<^verbatim>\<open>models/User.js\<close> is not
  among the sources. Of it, the derived counter \<^verbatim>\<open>reviewsCount\<close> that the review routes
  increment and decrement; an integer, since \<^verbatim>\<open>$inc\<close> through
  \<^verbatim>\<open>findByIdAndUpdate\<close> runs no validator and knows no bound.
\<close>

record user_doc =
  reviewsCount :: int

text \<open>
  The store. The review collection is the list of its documents in insertion order and
  the \<^verbatim>\<open>_id\<close> of a review is its position in that list; the other two collections
  are maps from identifiers to documents.
\<close>

record db =
  Reviews :: "review list"
  Books :: "book_id \<rightharpoonup> book_doc"
  Users :: "user_id \<rightharpoonup> user_doc"

text \<open>
  Modelled from the spec: \<^verbatim>\<open>req.user\<close>, the authenticated requester that the middleware
  \<^verbatim>\<open>middleware/auth.js\<close> (not among the sources) attaches to the request. The handlers
  read its \<^verbatim>\<open>_id\<close> and its \<^verbatim>\<open>role\<close>.
\<close>

record requester =
  req_id :: user_id
  req_role :: role

datatype error =
  BookNotFound
  | ReviewNotFound
  | DuplicateReview
  | Forbidden
  | ServerError

section \<open>The review methods \<^verbatim>\<open>markHelpful\<close> and \<^verbatim>\<open>toggleLike\<close>\<close>

text \<open>\<^verbatim>\<open>Array.prototype.indexOf\<close>: the first position of the element, \<open>None\<close> for \<open>-1\<close>.\<close>

fun indexOf :: "'a list \<Rightarrow> 'a \<Rightarrow> nat option" where
  "indexOf [] u = None"
| "indexOf (x # xs) u = (if x = u then Some 0 else map_option Suc (indexOf xs u))"

text \<open>\<^verbatim>\<open>xs.splice(i, 1)\<close>: the array without its element at position \<open>i\<close>.\<close>

definition splice1 :: "nat \<Rightarrow> 'a list \<Rightarrow> 'a list" where
  "splice1 i xs = take i xs @ drop (Suc i) xs"

text \<open>The two methods change the document in memory; the routes below save it.\<close>

definition markHelpful :: "user_id \<Rightarrow> review \<Rightarrow> review" where
  "markHelpful userId r =
     (case indexOf (users (helpful r)) userId of
        None \<Rightarrow>
          r\<lparr>helpful := \<lparr>count = count (helpful r) + 1, users = users (helpful r) @ [userId]\<rparr>\<rparr>
      | Some userIndex \<Rightarrow>
          r\<lparr>helpful := \<lparr>count = count (helpful r) - 1,
                         users = splice1 userIndex (users (helpful r))\<rparr>\<rparr>)"

definition toggleLike :: "user_id \<Rightarrow> review \<Rightarrow> review" where
  "toggleLike userId r =
     (case indexOf (users (likes r)) userId of
        None \<Rightarrow>
          r\<lparr>likes := \<lparr>count = count (likes r) + 1, users = users (likes r) @ [userId]\<rparr>\<rparr>
      | Some userIndex \<Rightarrow>
          r\<lparr>likes := \<lparr>count = count (likes r) - 1,
                       users = splice1 userIndex (users (likes r))\<rparr>\<rparr>)"

definition isHelpfulByUser :: "review \<Rightarrow> user_id \<Rightarrow> bool" where
  "isHelpfulByUser r userId = (userId \<in> set (users (helpful r)))"

definition isLikedByUser :: "review \<Rightarrow> user_id \<Rightarrow> bool" where
  "isLikedByUser r userId = (userId \<in> set (users (likes r)))"

text \<open>
  A voter array stands for a set when no user occurs twice in it, and the counter agrees
  with it when it is the number of its entries.
\<close>

definition votes_ok :: "votes \<Rightarrow> bool" where
  "votes_ok v = (distinct (users v) \<and> count v = int (length (users v)))"

section \<open>The rating aggregation of \<^verbatim>\<open>Book.js\<close>\<close>

text \<open>
  What can go wrong in the store during one request: each flag says that the write it
  names is rejected (the awaited promise throws). \<open>now\<close> is the value of
  \<^verbatim>\<open>new Date()\<close>.
\<close>

record env =
  now :: nat
  hookAggFails :: bool
  reviewSaveFails :: bool
  aggFails :: bool
  counterFails :: bool

definition no_faults :: "nat \<Rightarrow> env" where
  "no_faults t =
     \<lparr>now = t, hookAggFails = False, reviewSaveFails = False, aggFails = False,
      counterFails = False\<rparr>"

text \<open>\<^verbatim>\<open>Math.round\<close>: the nearest integer, a tie going to the larger one.\<close>

definition Math_round :: "rat \<Rightarrow> int" where
  "Math_round x = \<lfloor>x + 1 / 2\<rfloor>"

text \<open>
  The pipeline \<^verbatim>\<open>[{$match: {book: this._id}}, {$group: {_id: null, averageRating:
  {$avg: '$rating'}, totalRatings: {$sum: 1}}}]\<close>: no group when no review matches,
  otherwise one group with the mean and the number of the matching reviews.
\<close>

definition aggregate :: "book_id \<Rightarrow> review list \<Rightarrow> (rat \<times> int) list" where
  "aggregate bookId rs =
     (let matched = filter (\<lambda>r. book r = bookId) rs
      in if matched = [] then []
         else [(sum_list (map rating matched) / of_nat (length matched),
                int (length matched))])"

text \<open>
  \<^verbatim>\<open>book.updateAverageRating()\<close> on the document \<open>this\<close> with identifier
  \<open>bookId\<close>, in its two parts. First the lines up to the two assignments: the document in
  memory with the recomputed figures.
\<close>

definition recomputed :: "book_id \<Rightarrow> book_doc \<Rightarrow> db \<Rightarrow> book_doc" where
  "recomputed bookId this d =
     (case aggregate bookId (Reviews d) of
        s # _ \<Rightarrow>
          this\<lparr>averageRating := of_int (Math_round (fst s * 10)) / 10,
               totalRatings := snd s\<rparr>
      | [] \<Rightarrow> this\<lparr>averageRating := 0, totalRatings := 0\<rparr>)"

text \<open>
  Then \<^verbatim>\<open>this.save()\<close>, for a document \<open>loaded\<close> from the store earlier and now holding
  \<open>this\<close>. A path is modified when its value differs from the one loaded. The save throws
  (\<open>None\<close>) when the store rejects it, when the schema's bounds \<^verbatim>\<open>min: 0, max: 5\<close>
  reject a modified \<^verbatim>\<open>averageRating\<close>, or when the store has no document under the
  identifier. Otherwise it sets the modified paths, and only those, on the document that
  the store holds: a figure that the stored document has received since \<open>loaded\<close> was
  read stays when the assignment did not change it in memory.
\<close>

definition saveBook :: "bool \<Rightarrow> book_id \<Rightarrow> book_doc \<Rightarrow> book_doc \<Rightarrow> db \<Rightarrow> db option" where
  "saveBook saveFails bookId loaded this d =
     (if saveFails then None
      else if averageRating this \<noteq> averageRating loaded
              \<and> (averageRating this < 0 \<or> 5 < averageRating this) then None
      else
        (case Books d bookId of
           None \<Rightarrow> None
         | Some stored \<Rightarrow>
             Some (d\<lparr>Books := (Books d)(bookId \<mapsto>
               stored\<lparr>averageRating :=
                        (if averageRating this \<noteq> averageRating loaded
                         then averageRating this else averageRating stored),
                      totalRatings :=
                        (if totalRatings this \<noteq> totalRatings loaded
                         then totalRatings this else totalRatings stored)\<rparr>)\<rparr>)))"

definition updateAverageRating :: "bool \<Rightarrow> book_id \<Rightarrow> book_doc \<Rightarrow> db \<Rightarrow> db option" where
  "updateAverageRating saveFails bookId this d =
     saveBook saveFails bookId this (recomputed bookId this d) d"

section \<open>Saving a review: validation, the pre-save hook, the write\<close>

text \<open>The validators of the review schema, path by path.\<close>

definition valid_rating :: "rat \<Rightarrow> bool" where
  "valid_rating x = (1 \<le> x \<and> x \<le> 5)"

definition valid_title :: "string \<Rightarrow> bool" where
  "valid_title s = (s \<noteq> [] \<and> length s \<le> 200)"

definition valid_content :: "string \<Rightarrow> bool" where
  "valid_content s = (s \<noteq> [] \<and> length s \<le> 5000)"

definition valid_price :: "rat option \<Rightarrow> bool" where
  "valid_price p = (case p of None \<Rightarrow> True | Some x \<Rightarrow> 0 \<le> x)"

definition valid_tags :: "string list \<Rightarrow> bool" where
  "valid_tags ts = list_all (\<lambda>t. length t \<le> 50) ts"

definition valid_purchaseSource :: "string option \<Rightarrow> bool" where
  "valid_purchaseSource p = (case p of None \<Rightarrow> True | Some s \<Rightarrow> length s \<le> 100)"

text \<open>A new document is validated on every path, a loaded one on the paths that changed.\<close>

definition validate_new :: "review \<Rightarrow> bool" where
  "validate_new r =
     (valid_rating (rating r) \<and> valid_title (title r) \<and> valid_content (content r)
      \<and> valid_price (price r) \<and> valid_tags (tags r)
      \<and> valid_purchaseSource (purchaseSource r))"

definition validate_modified :: "review \<Rightarrow> review \<Rightarrow> bool" where
  "validate_modified old new =
     ((rating new = rating old \<or> valid_rating (rating new))
      \<and> (title new = title old \<or> valid_title (title new))
      \<and> (content new = content old \<or> valid_content (content new))
      \<and> (price new = price old \<or> valid_price (price new))
      \<and> (tags new = tags old \<or> valid_tags (tags new))
      \<and> (purchaseSource new = purchaseSource old
           \<or> valid_purchaseSource (purchaseSource new)))"

text \<open>
  \<^verbatim>\<open>reviewSchema.pre('save')\<close>. \<open>trigger\<close> is
  \<^verbatim>\<open>this.isNew || this.isModified('rating')\<close>. The hook runs before the review is
  written, so the aggregation it starts reads the collection as it was; whatever that
  aggregation throws is caught and logged.
\<close>

definition preSaveHook :: "env \<Rightarrow> bool \<Rightarrow> review \<Rightarrow> db \<Rightarrow> db" where
  "preSaveHook e trigger this d =
     (if trigger then
        (case Books d (book this) of
           None \<Rightarrow> d
         | Some bk \<Rightarrow>
             (case updateAverageRating (hookAggFails e) (book this) bk d of
                None \<Rightarrow> d
              | Some d' \<Rightarrow> d'))
      else d)"

text \<open>
  \<^verbatim>\<open>review.save()\<close> for a new and for a loaded document. The result says whether the
  save went through (\<open>False\<close>: it threw) and gives the store it leaves behind.
\<close>

definition saveNew :: "env \<Rightarrow> review \<Rightarrow> db \<Rightarrow> bool \<times> db" where
  "saveNew e this d =
     (if \<not> validate_new this then (False, d)
      else
        let d1 = preSaveHook e True this d
        in if reviewSaveFails e then (False, d1)
           else (True, d1\<lparr>Reviews := Reviews d1 @ [this]\<rparr>))"

definition saveExisting :: "env \<Rightarrow> review_id \<Rightarrow> review \<Rightarrow> review \<Rightarrow> db \<Rightarrow> bool \<times> db" where
  "saveExisting e i old this d =
     (if \<not> validate_modified old this then (False, d)
      else
        let d1 = preSaveHook e (rating this \<noteq> rating old) this d
        in if reviewSaveFails e then (False, d1)
           else (True, d1\<lparr>Reviews := (Reviews d1)[i := this]\<rparr>))"

definition findById :: "db \<Rightarrow> review_id \<Rightarrow> review option" where
  "findById d i = (if i < length (Reviews d) then Some (Reviews d ! i) else None)"

text \<open>\<^verbatim>\<open>User.findByIdAndUpdate(id, {$inc: {reviewsCount: n}})\<close>; no user, no change.\<close>

definition incReviewsCount :: "bool \<Rightarrow> user_id \<Rightarrow> int \<Rightarrow> db \<Rightarrow> db option" where
  "incReviewsCount fails uid n d =
     (if fails then None
      else Some (case Users d uid of
                   None \<Rightarrow> d
                 | Some u \<Rightarrow> d\<lparr>Users := (Users d)(uid \<mapsto> u\<lparr>reviewsCount := reviewsCount u + n\<rparr>)\<rparr>))"

section \<open>The route handlers of \<^verbatim>\<open>routes/reviews.js\<close>\<close>

text \<open>
  Each handler is the function behind the route, as it runs once the middleware in front
  of it (authentication, request validation) has let the request through. It returns the
  response and the store it leaves: a handler that fails half way leaves what it had
  already written.
\<close>

record create_body =
  body_bookId :: book_id
  body_rating :: rat
  body_title :: string
  body_content :: string
  body_spoilerAlert :: "bool option"
  body_readingStatus :: "reading_status option"
  body_format :: "book_format option"
  body_price :: "rat option"
  body_currency :: "currency_code option"

definition newReview :: "env \<Rightarrow> requester \<Rightarrow> create_body \<Rightarrow> review" where
  "newReview e q b =
     \<lparr>user = req_id q,
      book = body_bookId b,
      rating = body_rating b,
      title = body_title b,
      content = body_content b,
      spoilerAlert = (case body_spoilerAlert b of Some True \<Rightarrow> True | _ \<Rightarrow> False),
      helpful = \<lparr>count = 0, users = []\<rparr>,
      likes = \<lparr>count = 0, users = []\<rparr>,
      isVerified = False,
      isActive = True,
      tags = [],
      readingStatus = (case body_readingStatus b of Some s \<Rightarrow> s | None \<Rightarrow> Read),
      readDate = (if body_readingStatus b = Some Read then Some (now e) else None),
      format = (case body_format b of Some f \<Rightarrow> f | None \<Rightarrow> Paperback),
      purchaseSource = None,
      price = body_price b,
      currency = (case body_currency b of Some c \<Rightarrow> c | None \<Rightarrow> USD)\<rparr>"

text \<open>\<^verbatim>\<open>POST /api/reviews\<close>\<close>

definition createReview :: "env \<Rightarrow> requester \<Rightarrow> create_body \<Rightarrow> db \<Rightarrow> (error + review) \<times> db" where
  "createReview e q b d =
     (case Books d (body_bookId b) of
        None \<Rightarrow> (Inl BookNotFound, d)
      | Some bk \<Rightarrow>
          if \<not> bookIsActive bk then (Inl BookNotFound, d)
          else
            (case List.find (\<lambda>r. user r = req_id q \<and> book r = body_bookId b) (Reviews d) of
               Some existingReview \<Rightarrow> (Inl DuplicateReview, d)
             | None \<Rightarrow>
                 let this = newReview e q b;
                     (saved, d1) = saveNew e this d
                 in if \<not> saved then (Inl ServerError, d1)
                    else
                      (case updateAverageRating (aggFails e) (body_bookId b) bk d1 of
                         None \<Rightarrow> (Inl ServerError, d1)
                       | Some d2 \<Rightarrow>
                           (case incReviewsCount (counterFails e) (req_id q) 1 d2 of
                              None \<Rightarrow> (Inl ServerError, d2)
                            | Some d3 \<Rightarrow> (Inr this, d3)))))"

text \<open>
  The body of \<^verbatim>\<open>PUT /api/reviews/:id\<close>: a field is \<open>None\<close> when the request does not
  have it (\<^verbatim>\<open>req.body[field] === undefined\<close>). The first nine fields are the ones
  the handler lists in \<^verbatim>\<open>allowedFields\<close>; the others are the remaining paths of the
  review schema, which a request can name as well.
\<close>

record update_body =
  put_rating :: "rat option"
  put_title :: "string option"
  put_content :: "string option"
  put_spoilerAlert :: "bool option"
  put_readingStatus :: "reading_status option"
  put_format :: "book_format option"
  put_price :: "rat option"
  put_currency :: "currency_code option"
  put_readDate :: "nat option"
  put_user :: "user_id option"
  put_book :: "book_id option"
  put_helpful :: "votes option"
  put_likes :: "votes option"
  put_isVerified :: "bool option"
  put_isActive :: "bool option"
  put_tags :: "string list option"
  put_purchaseSource :: "string option"

text \<open>The loop over \<^verbatim>\<open>allowedFields\<close>.\<close>

definition applyAllowedFields :: "update_body \<Rightarrow> review \<Rightarrow> review" where
  "applyAllowedFields b r =
     r\<lparr>rating := (case put_rating b of Some v \<Rightarrow> v | None \<Rightarrow> rating r),
       title := (case put_title b of Some v \<Rightarrow> v | None \<Rightarrow> title r),
       content := (case put_content b of Some v \<Rightarrow> v | None \<Rightarrow> content r),
       spoilerAlert := (case put_spoilerAlert b of Some v \<Rightarrow> v | None \<Rightarrow> spoilerAlert r),
       readingStatus := (case put_readingStatus b of Some v \<Rightarrow> v | None \<Rightarrow> readingStatus r),
       format := (case put_format b of Some v \<Rightarrow> v | None \<Rightarrow> format r),
       price := (case put_price b of Some v \<Rightarrow> Some v | None \<Rightarrow> price r),
       currency := (case put_currency b of Some v \<Rightarrow> v | None \<Rightarrow> currency r),
       readDate := (case put_readDate b of Some v \<Rightarrow> Some v | None \<Rightarrow> readDate r)\<rparr>"

text \<open>The ownership check shared by the update and the delete handler.\<close>

definition accessDenied :: "requester \<Rightarrow> review \<Rightarrow> bool" where
  "accessDenied q r = (user r \<noteq> req_id q \<and> req_role q \<noteq> RoleAdmin)"

text \<open>\<^verbatim>\<open>PUT /api/reviews/:id\<close>\<close>

definition updateReview ::
  "env \<Rightarrow> requester \<Rightarrow> review_id \<Rightarrow> update_body \<Rightarrow> db \<Rightarrow> (error + review) \<times> db" where
  "updateReview e q i b d =
     (case findById d i of
        None \<Rightarrow> (Inl ReviewNotFound, d)
      | Some r \<Rightarrow>
          if \<not> isActive r then (Inl ReviewNotFound, d)
          else if accessDenied q r then (Inl Forbidden, d)
          else
            let this = applyAllowedFields b r;
                (saved, d1) = saveExisting e i r this d
            in if \<not> saved then (Inl ServerError, d1)
               else
                 (case put_rating b of
                    None \<Rightarrow> (Inr this, d1)
                  | Some v \<Rightarrow>
                      (case Books d1 (book this) of
                         None \<Rightarrow> (Inr this, d1)
                       | Some bk \<Rightarrow>
                           (case updateAverageRating (aggFails e) (book this) bk d1 of
                              None \<Rightarrow> (Inl ServerError, d1)
                            | Some d2 \<Rightarrow> (Inr this, d2)))))"

text \<open>\<^verbatim>\<open>DELETE /api/reviews/:id\<close>\<close>

definition deleteReview ::
  "env \<Rightarrow> requester \<Rightarrow> review_id \<Rightarrow> db \<Rightarrow> (error + unit) \<times> db" where
  "deleteReview e q i d =
     (case findById d i of
        None \<Rightarrow> (Inl ReviewNotFound, d)
      | Some r \<Rightarrow>
          if \<not> isActive r then (Inl ReviewNotFound, d)
          else if accessDenied q r then (Inl Forbidden, d)
          else
            let this = r\<lparr>isActive := False\<rparr>;
                (saved, d1) = saveExisting e i r this d
            in if \<not> saved then (Inl ServerError, d1)
               else
                 (case (case Books d1 (book this) of
                          None \<Rightarrow> Some d1
                        | Some bk \<Rightarrow> updateAverageRating (aggFails e) (book this) bk d1) of
                    None \<Rightarrow> (Inl ServerError, d1)
                  | Some d2 \<Rightarrow>
                      (case incReviewsCount (counterFails e) (user this) (- 1) d2 of
                         None \<Rightarrow> (Inl ServerError, d2)
                       | Some d3 \<Rightarrow> (Inr (), d3))))"

text \<open>\<^verbatim>\<open>POST /api/reviews/:id/helpful\<close> and \<^verbatim>\<open>POST /api/reviews/:id/like\<close>\<close>

definition helpfulRoute ::
  "env \<Rightarrow> requester \<Rightarrow> review_id \<Rightarrow> db \<Rightarrow> (error + int \<times> bool) \<times> db" where
  "helpfulRoute e q i d =
     (case findById d i of
        None \<Rightarrow> (Inl ReviewNotFound, d)
      | Some r \<Rightarrow>
          if \<not> isActive r then (Inl ReviewNotFound, d)
          else
            let this = markHelpful (req_id q) r;
                (saved, d1) = saveExisting e i r this d
            in if \<not> saved then (Inl ServerError, d1)
               else (Inr (count (helpful this), isHelpfulByUser this (req_id q)), d1))"

definition likeRoute ::
  "env \<Rightarrow> requester \<Rightarrow> review_id \<Rightarrow> db \<Rightarrow> (error + int \<times> bool) \<times> db" where
  "likeRoute e q i d =
     (case findById d i of
        None \<Rightarrow> (Inl ReviewNotFound, d)
      | Some r \<Rightarrow>
          if \<not> isActive r then (Inl ReviewNotFound, d)
          else
            let this = toggleLike (req_id q) r;
                (saved, d1) = saveExisting e i r this d
            in if \<not> saved then (Inl ServerError, d1)
               else (Inr (count (likes this), isLikedByUser this (req_id q)), d1))"

section \<open>The requests as a transition system\<close>

text \<open>
  One request takes the store to the store its handler leaves, whatever the response
  and whatever went wrong on the way. The routes of \<^verbatim>\<open>routes/books.js\<close> and
  \<^verbatim>\<open>routes/users.js\<close> write books and users only; here they are any step that keeps
  the review collection.
\<close>

inductive request :: "db \<Rightarrow> db \<Rightarrow> bool" where
  req_create: "request d (snd (createReview e q b d))"
| req_update: "request d (snd (updateReview e q i ub d))"
| req_delete: "request d (snd (deleteReview e q i d))"
| req_helpful: "request d (snd (helpfulRoute e q i d))"
| req_like: "request d (snd (likeRoute e q i d))"
| req_other: "Reviews d' = Reviews d \<Longrightarrow> request d d'"

section \<open>The rounding as the specification words it\<close>

text \<open>
  The specification asks for the arithmetic mean, rounded to one decimal place, half away
  from zero. The first three definitions follow its words; the aggregation above is
  compared with them. The last two name the ratings that the pipeline of
  \<^verbatim>\<open>updateAverageRating\<close> reads for a book, and the ratings of the book's active
  reviews, of which the specification speaks.
\<close>

definition mean :: "rat list \<Rightarrow> rat" where
  "mean xs = sum_list xs / of_nat (length xs)"

definition round_half_away :: "rat \<Rightarrow> int" where
  "round_half_away x = (if x < 0 then - \<lfloor>- x + 1 / 2\<rfloor> else \<lfloor>x + 1 / 2\<rfloor>)"

definition round1 :: "rat \<Rightarrow> rat" where
  "round1 x = of_int (round_half_away (x * 10)) / 10"

definition ratings_of :: "book_id \<Rightarrow> db \<Rightarrow> rat list" where
  "ratings_of b d = map rating (filter (\<lambda>r. book r = b) (Reviews d))"

definition active_ratings_of :: "book_id \<Rightarrow> db \<Rightarrow> rat list" where
  "active_ratings_of b d = map rating (filter (\<lambda>r. book r = b \<and> isActive r) (Reviews d))"

section \<open>Example data\<close>

definition review_ex :: review where
  "review_ex =
     \<lparr>user = 1, book = 0, rating = 4, title = ''Good'', content = ''A good book.'',
      spoilerAlert = False, helpful = \<lparr>count = 1, users = [7]\<rparr>,
      likes = \<lparr>count = 0, users = []\<rparr>, isVerified = False, isActive = True, tags = [],
      readingStatus = Read, readDate = None, format = Paperback, purchaseSource = None,
      price = None, currency = USD\<rparr>"

definition review_of :: "user_id \<Rightarrow> book_id \<Rightarrow> rat \<Rightarrow> review" where
  "review_of u b x =
     \<lparr>user = u, book = b, rating = x, title = ''Title'', content = ''Some content.'',
      spoilerAlert = False, helpful = \<lparr>count = 0, users = []\<rparr>,
      likes = \<lparr>count = 0, users = []\<rparr>, isVerified = False, isActive = True, tags = [],
      readingStatus = Read, readDate = None, format = Paperback, purchaseSource = None,
      price = None, currency = USD\<rparr>"

definition book0 :: book_doc where
  "book0 = \<lparr>averageRating = 0, totalRatings = 0, bookIsActive = True\<rparr>"


definition userA :: requester where
  "userA = \<lparr>req_id = 1, req_role = RoleUser\<rparr>"

definition userC :: requester where
  "userC = \<lparr>req_id = 3, req_role = RoleUser\<rparr>"

definition body_of :: "book_id \<Rightarrow> rat \<Rightarrow> create_body" where
  "body_of b x =
     \<lparr>body_bookId = b, body_rating = x, body_title = ''Title'',
      body_content = ''Some content.'', body_spoilerAlert = None,
      body_readingStatus = None, body_format = None, body_price = None,
      body_currency = None\<rparr>"

definition no_fields :: update_body where
  "no_fields =
     \<lparr>put_rating = None, put_title = None, put_content = None, put_spoilerAlert = None,
      put_readingStatus = None, put_format = None, put_price = None, put_currency = None,
      put_readDate = None, put_user = None, put_book = None, put_helpful = None,
      put_likes = None, put_isVerified = None, put_isActive = None, put_tags = None,
      put_purchaseSource = None\<rparr>"

text \<open>A store whose only review has been deleted, and one whose only book has been.\<close>

definition db_deleted :: db where
  "db_deleted =
     \<lparr>Reviews = [(review_of 1 0 4)\<lparr>isActive := False\<rparr>],
      Books = [0 \<mapsto> \<lparr>averageRating = 4, totalRatings = 1, bookIsActive = True\<rparr>],
      Users = [1 \<mapsto> \<lparr>reviewsCount = 0\<rparr>, 3 \<mapsto> \<lparr>reviewsCount = 0\<rparr>]\<rparr>"

definition db_book_gone :: db where
  "db_book_gone =
     \<lparr>Reviews = [review_of 1 0 4],
      Books = [0 \<mapsto> \<lparr>averageRating = 4, totalRatings = 1, bookIsActive = False\<rparr>],
      Users = [1 \<mapsto> \<lparr>reviewsCount = 1\<rparr>, 3 \<mapsto> \<lparr>reviewsCount = 0\<rparr>]\<rparr>"

definition db_one :: db where
  "db_one =
     \<lparr>Reviews = [review_of 1 0 4],
      Books = [0 \<mapsto> \<lparr>averageRating = 4, totalRatings = 1, bookIsActive = True\<rparr>],
      Users = [1 \<mapsto> \<lparr>reviewsCount = 1\<rparr>, 3 \<mapsto> \<lparr>reviewsCount = 0\<rparr>]\<rparr>"

text \<open>
  The scenario of the specification: a book without reviews; user 1 reviews it with 4,
  user 3 with 2, user 1 changes the rating to 5, user 1 deletes the review.
\<close>

definition db0 :: db where
  "db0 =
     \<lparr>Reviews = [],
      Books = [0 \<mapsto> book0],
      Users = [1 \<mapsto> \<lparr>reviewsCount = 0\<rparr>, 3 \<mapsto> \<lparr>reviewsCount = 0\<rparr>]\<rparr>"

definition db1 :: db where
  "db1 = snd (createReview (no_faults 0) userA (body_of 0 4) db0)"

definition db2 :: db where
  "db2 = snd (createReview (no_faults 0) userC (body_of 0 2) db1)"

definition db3 :: db where
  "db3 = snd (updateReview (no_faults 0) userA 0 (no_fields\<lparr>put_rating := Some 5\<rparr>) db2)"

definition db4 :: db where
  "db4 = snd (deleteReview (no_faults 0) userA 0 db3)"

text \<open>
  The store after a create request whose last step, the update of the user's counter,
  was rejected: the review is written, the counter is not.
\<close>

definition db_uncounted :: db where
  "db_uncounted =
     snd (createReview ((no_faults 0)\<lparr>counterFails := True\<rparr>) userA (body_of 0 4) db0)"



text \<open>A request during which the store rejects the write of the route's aggregation.\<close>

definition agg_rejected :: env where
  "agg_rejected = (no_faults 0)\<lparr>aggFails := True\<rparr>"

section \<open>Facts about the voter arrays\<close>

lemma indexOf_None: "indexOf xs u = None \<longleftrightarrow> u \<notin> set xs"
  by (induction xs) auto

lemma splice1_indexOf: "indexOf xs u = Some i \<Longrightarrow> splice1 i xs = remove1 u xs"
proof (induction xs arbitrary: i)
  case Nil
  then show ?case by simp
next
  case (Cons x xs)
  show ?case
  proof (cases "x = u")
    case True
    with Cons.prems show ?thesis by (simp add: splice1_def)
  next
    case False
    with Cons.prems obtain j where j: "indexOf xs u = Some j" "i = Suc j"
      by (auto split: if_splits)
    from Cons.IH [OF j(1)] have "take j xs @ drop (Suc j) xs = remove1 u xs"
      by (simp add: splice1_def)
    with False j show ?thesis by (simp add: splice1_def)
  qed
qed

section \<open>The interaction counters (claims C2 and C4)\<close>


lemma markHelpful_absent:
  "u \<notin> set (users (helpful r)) \<Longrightarrow>
   markHelpful u r =
     r\<lparr>helpful := \<lparr>count = count (helpful r) + 1, users = users (helpful r) @ [u]\<rparr>\<rparr>"
  using indexOf_None [of "users (helpful r)" u] by (simp add: markHelpful_def)

lemma markHelpful_present:
  "u \<in> set (users (helpful r)) \<Longrightarrow>
   markHelpful u r =
     r\<lparr>helpful := \<lparr>count = count (helpful r) - 1, users = remove1 u (users (helpful r))\<rparr>\<rparr>"
proof -
  assume "u \<in> set (users (helpful r))"
  then obtain i where "indexOf (users (helpful r)) u = Some i"
    using indexOf_None [of "users (helpful r)" u] by (cases "indexOf (users (helpful r)) u") auto
  then show ?thesis by (simp add: markHelpful_def splice1_indexOf)
qed

lemma toggleLike_absent:
  "u \<notin> set (users (likes r)) \<Longrightarrow>
   toggleLike u r =
     r\<lparr>likes := \<lparr>count = count (likes r) + 1, users = users (likes r) @ [u]\<rparr>\<rparr>"
  using indexOf_None [of "users (likes r)" u] by (simp add: toggleLike_def)

lemma toggleLike_present:
  "u \<in> set (users (likes r)) \<Longrightarrow>
   toggleLike u r =
     r\<lparr>likes := \<lparr>count = count (likes r) - 1, users = remove1 u (users (likes r))\<rparr>\<rparr>"
proof -
  assume "u \<in> set (users (likes r))"
  then obtain i where "indexOf (users (likes r)) u = Some i"
    using indexOf_None [of "users (likes r)" u] by (cases "indexOf (users (likes r)) u") auto
  then show ?thesis by (simp add: toggleLike_def splice1_indexOf)
qed

text \<open>One toggle on a sub-document, as both methods perform it.\<close>

lemma votes_ok_add:
  "votes_ok v \<Longrightarrow> u \<notin> set (users v) \<Longrightarrow> votes_ok \<lparr>count = count v + 1, users = users v @ [u]\<rparr>"
  by (simp add: votes_ok_def)

lemma votes_ok_remove:
  "votes_ok v \<Longrightarrow> u \<in> set (users v) \<Longrightarrow>
   votes_ok \<lparr>count = count v - 1, users = remove1 u (users v)\<rparr>"
proof -
  assume ok: "votes_ok v" and mem: "u \<in> set (users v)"
  from mem have "0 < length (users v)" by (rule length_pos_if_in_set)
  then have "int (length (users v) - 1) = int (length (users v)) - 1" by linarith
  with ok mem show ?thesis by (simp add: votes_ok_def length_remove1)
qed

lemma votes_ok_card: "votes_ok v \<Longrightarrow> count v = int (card (set (users v)))"
  by (simp add: votes_ok_def distinct_card)

lemma markHelpful_votes_ok: "votes_ok (helpful r) \<Longrightarrow> votes_ok (helpful (markHelpful u r))"
  by (cases "u \<in> set (users (helpful r))")
     (simp_all add: markHelpful_absent markHelpful_present votes_ok_add votes_ok_remove)

lemma toggleLike_votes_ok: "votes_ok (likes r) \<Longrightarrow> votes_ok (likes (toggleLike u r))"
  by (cases "u \<in> set (users (likes r))")
     (simp_all add: toggleLike_absent toggleLike_present votes_ok_add votes_ok_remove)

lemma markHelpful_likes: "likes (markHelpful u r) = likes r"
  by (simp add: markHelpful_def split: option.split)

lemma toggleLike_helpful: "helpful (toggleLike u r) = helpful r"
  by (simp add: toggleLike_def split: option.split)

lemma markHelpful_together:
  "distinct (users (helpful r)) \<Longrightarrow>
   (if u \<in> set (users (helpful r))
    then set (users (helpful (markHelpful u r))) = set (users (helpful r)) - {u}
         \<and> count (helpful (markHelpful u r)) = count (helpful r) - 1
    else set (users (helpful (markHelpful u r))) = insert u (set (users (helpful r)))
         \<and> count (helpful (markHelpful u r)) = count (helpful r) + 1)"
  by (simp add: markHelpful_absent markHelpful_present)

lemma toggleLike_together:
  "distinct (users (likes r)) \<Longrightarrow>
   (if u \<in> set (users (likes r))
    then set (users (likes (toggleLike u r))) = set (users (likes r)) - {u}
         \<and> count (likes (toggleLike u r)) = count (likes r) - 1
    else set (users (likes (toggleLike u r))) = insert u (set (users (likes r)))
         \<and> count (likes (toggleLike u r)) = count (likes r) + 1)"
  by (simp add: toggleLike_absent toggleLike_present)

text \<open>
  Claim C2. After \<^verbatim>\<open>markHelpful\<close> and after \<^verbatim>\<open>toggleLike\<close>, the counter of
  \<^verbatim>\<open>helpful\<close> is the number of users in the voter set of \<^verbatim>\<open>helpful\<close> and the
  counter of \<^verbatim>\<open>likes\<close> the number in that of \<^verbatim>\<open>likes\<close>, given that both were so
  before the call and that the voter arrays list no user twice. A call changes counter
  and membership together: it removes the user and takes one off when the user was in
  the set, it adds the user and adds one otherwise; the other sub-document stays.
\<close>

theorem toggle_keeps_count_equal_to_voters:
  assumes "votes_ok (helpful r)" and "votes_ok (likes r)"
  shows "count (helpful (markHelpful u r)) = int (card (set (users (helpful (markHelpful u r)))))
       \<and> count (likes (markHelpful u r)) = int (card (set (users (likes (markHelpful u r)))))
       \<and> count (helpful (toggleLike u r)) = int (card (set (users (helpful (toggleLike u r)))))
       \<and> count (likes (toggleLike u r)) = int (card (set (users (likes (toggleLike u r)))))
       \<and> votes_ok (helpful (markHelpful u r)) \<and> votes_ok (likes (markHelpful u r))
       \<and> votes_ok (helpful (toggleLike u r)) \<and> votes_ok (likes (toggleLike u r))
       \<and> (if u \<in> set (users (helpful r))
           then set (users (helpful (markHelpful u r))) = set (users (helpful r)) - {u}
                \<and> count (helpful (markHelpful u r)) = count (helpful r) - 1
           else set (users (helpful (markHelpful u r))) = insert u (set (users (helpful r)))
                \<and> count (helpful (markHelpful u r)) = count (helpful r) + 1)
       \<and> (if u \<in> set (users (likes r))
           then set (users (likes (toggleLike u r))) = set (users (likes r)) - {u}
                \<and> count (likes (toggleLike u r)) = count (likes r) - 1
           else set (users (likes (toggleLike u r))) = insert u (set (users (likes r)))
                \<and> count (likes (toggleLike u r)) = count (likes r) + 1)"
proof -
  have h: "votes_ok (helpful (markHelpful u r))" and l: "votes_ok (likes (toggleLike u r))"
    using assms by (simp_all add: markHelpful_votes_ok toggleLike_votes_ok)
  have h': "votes_ok (likes (markHelpful u r))" and l': "votes_ok (helpful (toggleLike u r))"
    using assms by (simp_all add: markHelpful_likes toggleLike_helpful)
  have d: "distinct (users (helpful r))" "distinct (users (likes r))"
    using assms by (simp_all add: votes_ok_def)
  show ?thesis
    using h l h' l' votes_ok_card [OF h] votes_ok_card [OF l] votes_ok_card [OF h']
      votes_ok_card [OF l'] markHelpful_together [OF d(1), of u] toggleLike_together [OF d(2), of u]
    by blast
qed



theorem toggle_keeps_count_equal_to_voters_witness:
  "votes_ok (helpful review_ex) \<and> votes_ok (likes review_ex)
   \<and> count (helpful (markHelpful 7 review_ex)) = 0
   \<and> users (helpful (markHelpful 7 review_ex)) = []
   \<and> count (likes (toggleLike 7 review_ex)) = 1
   \<and> count (likes (toggleLike 7 review_ex))
       = int (card (set (users (likes (toggleLike 7 review_ex)))))"
proof -
  have ok: "votes_ok (helpful review_ex)" "votes_ok (likes review_ex)"
    by (simp_all add: review_ex_def votes_ok_def)
  from toggle_keeps_count_equal_to_voters [OF ok, of 7]
  have "count (likes (toggleLike 7 review_ex))
          = int (card (set (users (likes (toggleLike 7 review_ex)))))"
    by blast
  moreover have "count (helpful (markHelpful 7 review_ex)) = 0"
    "users (helpful (markHelpful 7 review_ex)) = []"
    "count (likes (toggleLike 7 review_ex)) = 1"
    by (simp_all add: review_ex_def markHelpful_def toggleLike_def splice1_def)
  ultimately show ?thesis using ok by blast
qed

lemma markHelpful_twice_absent:
  "u \<notin> set (users (helpful r)) \<Longrightarrow> markHelpful u (markHelpful u r) = r"
  by (simp add: markHelpful_absent markHelpful_present remove1_append)

lemma markHelpful_twice_present:
  "u \<in> set (users (helpful r)) \<Longrightarrow> distinct (users (helpful r)) \<Longrightarrow>
   markHelpful u (markHelpful u r)
     = r\<lparr>helpful := \<lparr>count = count (helpful r), users = remove1 u (users (helpful r)) @ [u]\<rparr>\<rparr>"
  by (simp add: markHelpful_absent markHelpful_present)

lemma toggleLike_twice_absent:
  "u \<notin> set (users (likes r)) \<Longrightarrow> toggleLike u (toggleLike u r) = r"
  by (simp add: toggleLike_absent toggleLike_present remove1_append)

lemma toggleLike_twice_present:
  "u \<in> set (users (likes r)) \<Longrightarrow> distinct (users (likes r)) \<Longrightarrow>
   toggleLike u (toggleLike u r)
     = r\<lparr>likes := \<lparr>count = count (likes r), users = remove1 u (users (likes r)) @ [u]\<rparr>\<rparr>"
  by (simp add: toggleLike_absent toggleLike_present)

lemma markHelpful_twice:
  assumes "distinct (users (helpful r))"
  shows "count (helpful (markHelpful u (markHelpful u r))) = count (helpful r)
       \<and> set (users (helpful (markHelpful u (markHelpful u r)))) = set (users (helpful r))
       \<and> (markHelpful u (markHelpful u r))\<lparr>helpful := helpful r\<rparr> = r"
proof (cases "u \<in> set (users (helpful r))")
  case True
  with assms show ?thesis by (auto simp: markHelpful_twice_present)
next
  case False
  then show ?thesis by (simp add: markHelpful_twice_absent)
qed

lemma toggleLike_twice:
  assumes "distinct (users (likes r))"
  shows "count (likes (toggleLike u (toggleLike u r))) = count (likes r)
       \<and> set (users (likes (toggleLike u (toggleLike u r)))) = set (users (likes r))
       \<and> (toggleLike u (toggleLike u r))\<lparr>likes := likes r\<rparr> = r"
proof (cases "u \<in> set (users (likes r))")
  case True
  with assms show ?thesis by (auto simp: toggleLike_twice_present)
next
  case False
  then show ?thesis by (simp add: toggleLike_twice_absent)
qed

lemma markHelpful_second_undoes:
  assumes "distinct (users (helpful r))"
  shows "if u \<in> set (users (helpful r))
         then u \<notin> set (users (helpful (markHelpful u r)))
              \<and> count (helpful (markHelpful u r)) = count (helpful r) - 1
              \<and> u \<in> set (users (helpful (markHelpful u (markHelpful u r))))
              \<and> count (helpful (markHelpful u (markHelpful u r)))
                  = count (helpful (markHelpful u r)) + 1
         else u \<in> set (users (helpful (markHelpful u r)))
              \<and> count (helpful (markHelpful u r)) = count (helpful r) + 1
              \<and> u \<notin> set (users (helpful (markHelpful u (markHelpful u r))))
              \<and> count (helpful (markHelpful u (markHelpful u r)))
                  = count (helpful (markHelpful u r)) - 1"
  using assms
  by (simp add: markHelpful_twice_absent markHelpful_twice_present markHelpful_absent
      markHelpful_present)

lemma toggleLike_second_undoes:
  assumes "distinct (users (likes r))"
  shows "if u \<in> set (users (likes r))
         then u \<notin> set (users (likes (toggleLike u r)))
              \<and> count (likes (toggleLike u r)) = count (likes r) - 1
              \<and> u \<in> set (users (likes (toggleLike u (toggleLike u r))))
              \<and> count (likes (toggleLike u (toggleLike u r)))
                  = count (likes (toggleLike u r)) + 1
         else u \<in> set (users (likes (toggleLike u r)))
              \<and> count (likes (toggleLike u r)) = count (likes r) + 1
              \<and> u \<notin> set (users (likes (toggleLike u (toggleLike u r))))
              \<and> count (likes (toggleLike u (toggleLike u r)))
                  = count (likes (toggleLike u r)) - 1"
  using assms
  by (simp add: toggleLike_twice_absent toggleLike_twice_present toggleLike_absent
      toggleLike_present)

text \<open>
  Claim C4. Two calls of \<^verbatim>\<open>markHelpful\<close> in a row by the same user, and likewise two of
  \<^verbatim>\<open>toggleLike\<close>, bring the review back to the counter and the voter set it had (and
  change nothing else of the review), for a voter array that lists no user twice. The
  second call removes the user and takes one off exactly when the first added the user
  and added one, and the other way round.
\<close>

theorem toggle_twice_restores:
  assumes "distinct (users (helpful r))" and "distinct (users (likes r))"
  shows "count (helpful (markHelpful u (markHelpful u r))) = count (helpful r)
       \<and> set (users (helpful (markHelpful u (markHelpful u r)))) = set (users (helpful r))
       \<and> (markHelpful u (markHelpful u r))\<lparr>helpful := helpful r\<rparr> = r
       \<and> count (likes (toggleLike u (toggleLike u r))) = count (likes r)
       \<and> set (users (likes (toggleLike u (toggleLike u r)))) = set (users (likes r))
       \<and> (toggleLike u (toggleLike u r))\<lparr>likes := likes r\<rparr> = r
       \<and> (if u \<in> set (users (helpful r))
           then u \<notin> set (users (helpful (markHelpful u r)))
                \<and> count (helpful (markHelpful u r)) = count (helpful r) - 1
                \<and> u \<in> set (users (helpful (markHelpful u (markHelpful u r))))
                \<and> count (helpful (markHelpful u (markHelpful u r)))
                    = count (helpful (markHelpful u r)) + 1
           else u \<in> set (users (helpful (markHelpful u r)))
                \<and> count (helpful (markHelpful u r)) = count (helpful r) + 1
                \<and> u \<notin> set (users (helpful (markHelpful u (markHelpful u r))))
                \<and> count (helpful (markHelpful u (markHelpful u r)))
                    = count (helpful (markHelpful u r)) - 1)
       \<and> (if u \<in> set (users (likes r))
           then u \<notin> set (users (likes (toggleLike u r)))
                \<and> count (likes (toggleLike u r)) = count (likes r) - 1
                \<and> u \<in> set (users (likes (toggleLike u (toggleLike u r))))
                \<and> count (likes (toggleLike u (toggleLike u r)))
                    = count (likes (toggleLike u r)) + 1
           else u \<in> set (users (likes (toggleLike u r)))
                \<and> count (likes (toggleLike u r)) = count (likes r) + 1
                \<and> u \<notin> set (users (likes (toggleLike u (toggleLike u r))))
                \<and> count (likes (toggleLike u (toggleLike u r)))
                    = count (likes (toggleLike u r)) - 1)"
  using markHelpful_twice [OF assms(1), of u] toggleLike_twice [OF assms(2), of u]
    markHelpful_second_undoes [OF assms(1), of u] toggleLike_second_undoes [OF assms(2), of u]
  by blast

theorem toggle_twice_restores_witness:
  "distinct (users (helpful review_ex)) \<and> distinct (users (likes review_ex))
   \<and> count (helpful (markHelpful 7 review_ex)) = 0
   \<and> count (helpful (markHelpful 7 (markHelpful 7 review_ex))) = 1
   \<and> set (users (helpful (markHelpful 7 (markHelpful 7 review_ex)))) = {7}
   \<and> toggleLike 7 (toggleLike 7 review_ex) = review_ex"
proof -
  have d: "distinct (users (helpful review_ex))" "distinct (users (likes review_ex))"
    by (simp_all add: review_ex_def)
  from toggle_twice_restores [OF d, of 7]
  have "count (helpful (markHelpful 7 (markHelpful 7 review_ex))) = count (helpful review_ex)"
    "set (users (helpful (markHelpful 7 (markHelpful 7 review_ex))))
       = set (users (helpful review_ex))"
    "(toggleLike 7 (toggleLike 7 review_ex))\<lparr>likes := likes review_ex\<rparr> = review_ex"
    "count (likes (toggleLike 7 (toggleLike 7 review_ex))) = count (likes review_ex)"
    by blast+
  moreover have "count (helpful review_ex) = 1" "set (users (helpful review_ex)) = {7}"
    "count (helpful (markHelpful 7 review_ex)) = 0"
    "toggleLike 7 (toggleLike 7 review_ex) = review_ex"
    by (simp_all add: review_ex_def markHelpful_def toggleLike_def splice1_def)
  ultimately show ?thesis using d by simp
qed

section \<open>The rounding of the average (claim C5)\<close>


lemma floor_divide_numeral_rat:
  "\<lfloor>numeral a / numeral b :: rat\<rfloor> = numeral a div numeral b"
  using floor_divide_of_int_eq [of "numeral a" "numeral b", where ?'a = rat] by simp

lemmas handler_defs =
  createReview_def updateReview_def deleteReview_def saveNew_def saveExisting_def
  validate_new_def validate_modified_def valid_rating_def valid_title_def valid_content_def
  valid_price_def valid_tags_def valid_purchaseSource_def preSaveHook_def
  updateAverageRating_def recomputed_def saveBook_def aggregate_def incReviewsCount_def Math_round_def no_faults_def
  newReview_def applyAllowedFields_def accessDenied_def findById_def Let_def

lemmas example_defs =
  userA_def userC_def body_of_def no_fields_def review_of_def book0_def
  floor_divide_numeral_rat

lemma aggregate_empty:
  "filter (\<lambda>r. book r = b) rs = [] \<Longrightarrow> aggregate b rs = []"
  by (simp add: aggregate_def)

lemma aggregate_nonempty:
  "filter (\<lambda>r. book r = b) rs \<noteq> [] \<Longrightarrow>
   aggregate b rs
     = [(mean (map rating (filter (\<lambda>r. book r = b) rs)),
         int (length (filter (\<lambda>r. book r = b) rs)))]"
  by (simp add: aggregate_def mean_def Let_def)

lemma sum_list_bounds:
  fixes xs :: "rat list"
  shows "\<forall>x\<in>set xs. 1 \<le> x \<and> x \<le> 5 \<Longrightarrow>
         of_nat (length xs) \<le> sum_list xs \<and> sum_list xs \<le> 5 * of_nat (length xs)"
  by (induction xs) auto

lemma mean_bounds:
  assumes "xs \<noteq> []" and "\<forall>x\<in>set xs. 1 \<le> x \<and> x \<le> (5::rat)"
  shows "1 \<le> mean xs \<and> mean xs \<le> 5"
proof -
  have pos: "(0::rat) < of_nat (length xs)" using assms(1) by simp
  from sum_list_bounds [OF assms(2)]
  show ?thesis using pos by (simp add: mean_def pos_le_divide_eq pos_divide_le_eq)
qed

lemma Math_round_nonneg: "0 \<le> x \<Longrightarrow> Math_round x = round_half_away x"
  by (simp add: Math_round_def round_half_away_def)

lemma Math_round_near:
  "\<bar>of_int (Math_round y) - y\<bar> \<le> 1 / 2"
proof -
  have "of_int \<lfloor>y + 1 / 2\<rfloor> \<le> y + 1 / 2" by (rule of_int_floor_le)
  moreover have "y + 1 / 2 < of_int \<lfloor>y + 1 / 2\<rfloor> + 1"
    using floor_correct [of "y + 1 / 2"] by simp
  ultimately show ?thesis unfolding Math_round_def by linarith
qed


lemma Math_round_bounds:
  "of_int lo \<le> y \<Longrightarrow> y \<le> of_int hi \<Longrightarrow> lo \<le> Math_round y \<and> Math_round y \<le> hi"
proof -
  assume lo: "of_int lo \<le> y" and hi: "y \<le> of_int hi"
  from lo have "of_int lo \<le> y + 1 / 2" by linarith
  then have 1: "lo \<le> \<lfloor>y + 1 / 2\<rfloor>" by (simp add: le_floor_iff)
  from hi have "y + 1 / 2 < of_int hi + 1" by linarith
  then have 2: "\<lfloor>y + 1 / 2\<rfloor> \<le> hi" by (simp add: floor_le_iff)
  from 1 2 show ?thesis by (simp add: Math_round_def)
qed

text \<open>The value that the aggregation assigns to \<^verbatim>\<open>averageRating\<close>.\<close>

lemma stored_average_round1:
  assumes "1 \<le> m" and "m \<le> (5::rat)"
  shows "of_int (Math_round (m * 10)) / 10 = round1 m"
    and "1 \<le> round1 m" and "round1 m \<le> 5"
    and "\<bar>round1 m - m\<bar> \<le> 1 / 20"
proof -
  from assms have nn: "0 \<le> m * 10" by simp
  show eq: "of_int (Math_round (m * 10)) / 10 = round1 m"
    by (simp add: round1_def Math_round_nonneg [OF nn])
  from assms have "of_int 10 \<le> m * 10" "m * 10 \<le> of_int 50" by simp_all
  from Math_round_bounds [OF this]
  have b: "10 \<le> Math_round (m * 10)" "Math_round (m * 10) \<le> 50" by simp_all
  then have "(10::rat) \<le> of_int (Math_round (m * 10))" "of_int (Math_round (m * 10)) \<le> (50::rat)"
    by linarith+
  then show "1 \<le> round1 m" "round1 m \<le> 5" unfolding eq [symmetric] by simp_all
  from Math_round_near [of "m * 10"]
  show "\<bar>round1 m - m\<bar> \<le> 1 / 20" unfolding eq [symmetric] by (simp add: field_simps abs_if split: if_splits)
qed

lemma recomputed_empty:
  "ratings_of b d = [] \<Longrightarrow> recomputed b this d = this\<lparr>averageRating := 0, totalRatings := 0\<rparr>"
  by (simp add: recomputed_def ratings_of_def aggregate_empty)

lemma recomputed_nonempty:
  assumes "ratings_of b d \<noteq> []" and "\<forall>x\<in>set (ratings_of b d). 1 \<le> x \<and> x \<le> 5"
  shows "recomputed b this d
           = this\<lparr>averageRating := round1 (mean (ratings_of b d)),
                 totalRatings := int (length (ratings_of b d))\<rparr>"
proof -
  from mean_bounds [OF assms] have m: "1 \<le> mean (ratings_of b d)" "mean (ratings_of b d) \<le> 5"
    by simp_all
  from assms(1) have ne: "filter (\<lambda>r. book r = b) (Reviews d) \<noteq> []"
    by (simp add: ratings_of_def)
  have "aggregate b (Reviews d) = [(mean (ratings_of b d), int (length (ratings_of b d)))]"
    using aggregate_nonempty [OF ne] by (simp add: ratings_of_def)
  then show ?thesis by (simp add: recomputed_def stored_average_round1(1) [OF m])
qed






section \<open>Authorization (claim C6)\<close>

text \<open>
  Claim C6, as the code has it. For a review that exists and is active, a requester who
  is neither its author nor an administrator gets \<^verbatim>\<open>403\<close> from the update and from the
  delete handler, whatever the request holds and whatever the store would reject, and the
  whole store (the review with it) is as it was. For an identifier under which there is no
  review, or a review that is not active, both handlers answer \<^verbatim>\<open>404\<close>, whoever the
  requester is, and again leave the store as it was.
\<close>

theorem non_owner_is_forbidden:
  "(findById d i = Some r \<and> isActive r \<and> user r \<noteq> req_id q \<and> req_role q \<noteq> RoleAdmin
      \<longrightarrow> updateReview e q i b d = (Inl Forbidden, d)
          \<and> deleteReview e q i d = (Inl Forbidden, d))
   \<and> ((case findById d i of None \<Rightarrow> True | Some r' \<Rightarrow> \<not> isActive r')
      \<longrightarrow> updateReview e q i b d = (Inl ReviewNotFound, d)
          \<and> deleteReview e q i d = (Inl ReviewNotFound, d))"
  by (auto simp: updateReview_def deleteReview_def accessDenied_def split: option.splits)

theorem non_owner_is_forbidden_witness:
  "findById db_one 0 = Some (review_of 1 0 4) \<and> isActive (review_of 1 0 4)
   \<and> user (review_of 1 0 4) \<noteq> req_id userC \<and> req_role userC \<noteq> RoleAdmin
   \<and> updateReview (no_faults 0) userC 0 (no_fields\<lparr>put_rating := Some 1\<rparr>) db_one
       = (Inl Forbidden, db_one)
   \<and> deleteReview (no_faults 0) userC 0 db_one = (Inl Forbidden, db_one)
   \<and> findById db_one 5 = None
   \<and> updateReview (no_faults 0) userA 5 (no_fields\<lparr>put_rating := Some 1\<rparr>) db_one
       = (Inl ReviewNotFound, db_one)
   \<and> deleteReview (no_faults 0) userA 5 db_one = (Inl ReviewNotFound, db_one)
   \<and> findById db_deleted 0 = Some ((review_of 1 0 4)\<lparr>isActive := False\<rparr>)
   \<and> \<not> isActive ((review_of 1 0 4)\<lparr>isActive := False\<rparr>)
   \<and> updateReview (no_faults 0) userA 0 (no_fields\<lparr>put_rating := Some 1\<rparr>) db_deleted
       = (Inl ReviewNotFound, db_deleted)
   \<and> deleteReview (no_faults 0) userA 0 db_deleted = (Inl ReviewNotFound, db_deleted)"
proof -
  have h: "findById db_one 0 = Some (review_of 1 0 4)" "isActive (review_of 1 0 4)"
    "user (review_of 1 0 4) \<noteq> req_id userC" "req_role userC \<noteq> RoleAdmin"
    by (simp_all add: findById_def db_one_def review_of_def userC_def)
  have n: "findById db_one 5 = None" by (simp add: findById_def db_one_def)
  have g: "findById db_deleted 0 = Some ((review_of 1 0 4)\<lparr>isActive := False\<rparr>)"
    "\<not> isActive ((review_of 1 0 4)\<lparr>isActive := False\<rparr>)"
    by (simp_all add: findById_def db_deleted_def)
  from non_owner_is_forbidden [of db_one 0 "review_of 1 0 4" userC "no_faults 0"
      "no_fields\<lparr>put_rating := Some 1\<rparr>"] h
  have 1: "updateReview (no_faults 0) userC 0 (no_fields\<lparr>put_rating := Some 1\<rparr>) db_one
       = (Inl Forbidden, db_one)"
    "deleteReview (no_faults 0) userC 0 db_one = (Inl Forbidden, db_one)"
    by blast+
  have "case findById db_one 5 of None \<Rightarrow> True | Some r' \<Rightarrow> \<not> isActive r'"
    by (simp add: n)
  with non_owner_is_forbidden [of db_one 5 "review_of 1 0 4" userA "no_faults 0"
      "no_fields\<lparr>put_rating := Some 1\<rparr>"]
  have 2: "updateReview (no_faults 0) userA 5 (no_fields\<lparr>put_rating := Some 1\<rparr>) db_one
       = (Inl ReviewNotFound, db_one)"
    "deleteReview (no_faults 0) userA 5 db_one = (Inl ReviewNotFound, db_one)"
    by blast+
  have "case findById db_deleted 0 of None \<Rightarrow> True | Some r' \<Rightarrow> \<not> isActive r'"
    by (simp add: g)
  with non_owner_is_forbidden [of db_deleted 0 "review_of 1 0 4" userA "no_faults 0"
      "no_fields\<lparr>put_rating := Some 1\<rparr>"]
  have 3: "updateReview (no_faults 0) userA 0 (no_fields\<lparr>put_rating := Some 1\<rparr>) db_deleted
       = (Inl ReviewNotFound, db_deleted)"
    "deleteReview (no_faults 0) userA 0 db_deleted = (Inl ReviewNotFound, db_deleted)"
    by blast+
  from h n g 1 2 3 show ?thesis by blast
qed

text \<open>
  Counterexample to C6 as it is written, which speaks of every review: for a deleted one
  the handlers answer \<^verbatim>\<open>404\<close> before they look at the requester.
\<close>

theorem non_owner_of_deleted_review_counterexample:
  "findById db_deleted 0 = Some ((review_of 1 0 4)\<lparr>isActive := False\<rparr>)
   \<and> user ((review_of 1 0 4)\<lparr>isActive := False\<rparr>) \<noteq> req_id userC
   \<and> req_role userC \<noteq> RoleAdmin
   \<and> fst (updateReview (no_faults 0) userC 0 no_fields db_deleted) = Inl ReviewNotFound
   \<and> fst (deleteReview (no_faults 0) userC 0 db_deleted) = Inl ReviewNotFound
   \<and> fst (updateReview (no_faults 0) userC 0 no_fields db_deleted) \<noteq> Inl Forbidden
   \<and> fst (deleteReview (no_faults 0) userC 0 db_deleted) \<noteq> Inl Forbidden"
  by (simp add: findById_def db_deleted_def review_of_def userC_def updateReview_def
      deleteReview_def)

section \<open>One review for a user and a book (claims C3 and C10)\<close>

lemma find_pair_Some:
  assumes "r0 \<in> set rs" and "user r0 = u" and "book r0 = b"
  shows "\<exists>r1. List.find (\<lambda>r. user r = u \<and> book r = b) rs = Some r1"
proof (cases "List.find (\<lambda>r. user r = u \<and> book r = b) rs")
  case None
  with assms show ?thesis by (auto simp: find_None_iff)
next
  case (Some r1)
  then show ?thesis by simp
qed

lemma createReview_existing:
  assumes "r0 \<in> set (Reviews d)" and "user r0 = req_id q" and "book r0 = body_bookId b"
  shows "createReview e q b d
           = (Inl (case Books d (body_bookId b) of
                     None \<Rightarrow> BookNotFound
                   | Some bk \<Rightarrow> if bookIsActive bk then DuplicateReview else BookNotFound), d)"
proof -
  from find_pair_Some [OF assms(1), of "req_id q" "body_bookId b"] assms(2,3)
  obtain r1 where
    "List.find (\<lambda>r. user r = req_id q \<and> book r = body_bookId b) (Reviews d) = Some r1"
    by auto
  then show ?thesis by (simp add: createReview_def split: option.split)
qed

text \<open>
  Claim C3, as the code has it. When a review of the user for the book is in the
  collection, active or not, the create handler fails and leaves the store as it was, so
  that no second row is written. It fails with \<^verbatim>\<open>DuplicateReview\<close> when the book exists
  and is active; the handler looks at the book first, and when the book is missing or
  inactive the failure is \<^verbatim>\<open>BookNotFound\<close>.
\<close>

theorem second_review_is_rejected:
  assumes "r0 \<in> set (Reviews d)" and "user r0 = req_id q" and "book r0 = body_bookId b"
  shows "createReview e q b d
           = (Inl (case Books d (body_bookId b) of
                     None \<Rightarrow> BookNotFound
                   | Some bk \<Rightarrow> if bookIsActive bk then DuplicateReview else BookNotFound), d)"
  using assms by (rule createReview_existing)

theorem second_review_is_rejected_witness:
  "(review_of 1 0 4)\<lparr>isActive := False\<rparr> \<in> set (Reviews db_deleted)
   \<and> user ((review_of 1 0 4)\<lparr>isActive := False\<rparr>) = req_id userA
   \<and> book ((review_of 1 0 4)\<lparr>isActive := False\<rparr>) = body_bookId (body_of 0 5)
   \<and> createReview (no_faults 0) userA (body_of 0 5) db_deleted = (Inl DuplicateReview, db_deleted)"
proof -
  have h: "(review_of 1 0 4)\<lparr>isActive := False\<rparr> \<in> set (Reviews db_deleted)"
    "user ((review_of 1 0 4)\<lparr>isActive := False\<rparr>) = req_id userA"
    "book ((review_of 1 0 4)\<lparr>isActive := False\<rparr>) = body_bookId (body_of 0 5)"
    by (simp_all add: db_deleted_def review_of_def userA_def body_of_def)
  have "Books db_deleted (body_bookId (body_of 0 5))
          = Some \<lparr>averageRating = 4, totalRatings = 1, bookIsActive = True\<rparr>"
    by (simp add: db_deleted_def body_of_def)
  with second_review_is_rejected [OF h, of "no_faults 0"] h show ?thesis by simp
qed

text \<open>
  Counterexample to C3 as it is written, which promises \<^verbatim>\<open>DuplicateReview\<close> whenever
  such a review is there: with the book deleted, the answer is \<^verbatim>\<open>BookNotFound\<close>.
\<close>

theorem duplicate_on_inactive_book_counterexample:
  "review_of 1 0 4 \<in> set (Reviews db_book_gone)
   \<and> user (review_of 1 0 4) = req_id userA
   \<and> book (review_of 1 0 4) = body_bookId (body_of 0 5)
   \<and> fst (createReview (no_faults 0) userA (body_of 0 5) db_book_gone) = Inl BookNotFound
   \<and> fst (createReview (no_faults 0) userA (body_of 0 5) db_book_gone) \<noteq> Inl DuplicateReview"
  by (simp add: db_book_gone_def review_of_def userA_def body_of_def createReview_def)

section \<open>What the handlers do to the three collections\<close>

lemma updateAverageRating_frame:
  "updateAverageRating f b bk d = Some d' \<Longrightarrow> Reviews d' = Reviews d \<and> Users d' = Users d"
  by (auto simp: updateAverageRating_def saveBook_def split: if_splits option.splits)

lemma preSaveHook_frame:
  "Reviews (preSaveHook e t this d) = Reviews d \<and> Users (preSaveHook e t this d) = Users d"
  by (auto simp: preSaveHook_def split: option.split dest: updateAverageRating_frame)

lemma incReviewsCount_frame:
  "incReviewsCount f u n d = Some d' \<Longrightarrow> Reviews d' = Reviews d \<and> Books d' = Books d"
  by (auto simp: incReviewsCount_def split: if_splits option.splits)

lemma saveNew_Reviews:
  "Reviews (snd (saveNew e this d))
     = (if fst (saveNew e this d) then Reviews d @ [this] else Reviews d)"
  by (simp add: saveNew_def Let_def preSaveHook_frame)

lemma saveExisting_Reviews:
  "Reviews (snd (saveExisting e i old this d))
     = (if fst (saveExisting e i old this d) then (Reviews d)[i := this] else Reviews d)"
  by (simp add: saveExisting_def Let_def preSaveHook_frame)

lemma saveNew_Users: "Users (snd (saveNew e this d)) = Users d"
  by (simp add: saveNew_def Let_def preSaveHook_frame)

lemma saveExisting_Users: "Users (snd (saveExisting e i old this d)) = Users d"
  by (simp add: saveExisting_def Let_def preSaveHook_frame)

text \<open>
  Every handler leaves the review collection as it was, or with one document replaced in
  its place, or with one document more at the end.
\<close>

lemma createReview_Reviews:
  "Reviews (snd (createReview e q b d)) = Reviews d
   \<or> Reviews (snd (createReview e q b d)) = Reviews d @ [newReview e q b]"
proof -
  obtain ok d1 where s: "saveNew e (newReview e q b) d = (ok, d1)"
    by (cases "saveNew e (newReview e q b) d")
  from saveNew_Reviews [of e "newReview e q b" d] s
  have d1: "Reviews d1 = (if ok then Reviews d @ [newReview e q b] else Reviews d)" by simp
  show ?thesis
    using d1
    by (auto simp: createReview_def Let_def s split: option.splits
        dest!: updateAverageRating_frame incReviewsCount_frame)
qed

lemma updateReview_Reviews:
  "Reviews (snd (updateReview e q i b d)) = Reviews d
   \<or> (\<exists>r. findById d i = Some r
         \<and> Reviews (snd (updateReview e q i b d)) = (Reviews d)[i := applyAllowedFields b r])"
proof (cases "findById d i")
  case None
  then show ?thesis by (simp add: updateReview_def)
next
  case (Some r)
  obtain ok d1 where s: "saveExisting e i r (applyAllowedFields b r) d = (ok, d1)"
    by (cases "saveExisting e i r (applyAllowedFields b r) d")
  from saveExisting_Reviews [of e i r "applyAllowedFields b r" d] s
  have d1: "Reviews d1 = (if ok then (Reviews d)[i := applyAllowedFields b r] else Reviews d)"
    by simp
  show ?thesis
    using d1
    by (auto simp: updateReview_def Let_def Some s split: option.splits
        dest!: updateAverageRating_frame)
qed

lemma deleteReview_Reviews:
  "Reviews (snd (deleteReview e q i d)) = Reviews d
   \<or> (\<exists>r. findById d i = Some r
         \<and> Reviews (snd (deleteReview e q i d)) = (Reviews d)[i := r\<lparr>isActive := False\<rparr>])"
proof (cases "findById d i")
  case None
  then show ?thesis by (simp add: deleteReview_def)
next
  case (Some r)
  obtain ok d1 where s: "saveExisting e i r (r\<lparr>isActive := False\<rparr>) d = (ok, d1)"
    by (cases "saveExisting e i r (r\<lparr>isActive := False\<rparr>) d")
  from saveExisting_Reviews [of e i r "r\<lparr>isActive := False\<rparr>" d] s
  have d1: "Reviews d1 = (if ok then (Reviews d)[i := r\<lparr>isActive := False\<rparr>] else Reviews d)"
    by simp
  show ?thesis
    using d1
    by (auto simp: deleteReview_def Let_def Some s split: option.splits
        dest!: updateAverageRating_frame incReviewsCount_frame)
qed

lemma helpfulRoute_Reviews:
  "Reviews (snd (helpfulRoute e q i d)) = Reviews d
   \<or> (\<exists>r. findById d i = Some r
         \<and> Reviews (snd (helpfulRoute e q i d)) = (Reviews d)[i := markHelpful (req_id q) r])"
proof (cases "findById d i")
  case None
  then show ?thesis by (simp add: helpfulRoute_def)
next
  case (Some r)
  obtain ok d1 where s: "saveExisting e i r (markHelpful (req_id q) r) d = (ok, d1)"
    by (cases "saveExisting e i r (markHelpful (req_id q) r) d")
  from saveExisting_Reviews [of e i r "markHelpful (req_id q) r" d] s
  have d1: "Reviews d1 = (if ok then (Reviews d)[i := markHelpful (req_id q) r] else Reviews d)"
    by simp
  show ?thesis using d1 by (auto simp: helpfulRoute_def Let_def Some s)
qed

lemma likeRoute_Reviews:
  "Reviews (snd (likeRoute e q i d)) = Reviews d
   \<or> (\<exists>r. findById d i = Some r
         \<and> Reviews (snd (likeRoute e q i d)) = (Reviews d)[i := toggleLike (req_id q) r])"
proof (cases "findById d i")
  case None
  then show ?thesis by (simp add: likeRoute_def)
next
  case (Some r)
  obtain ok d1 where s: "saveExisting e i r (toggleLike (req_id q) r) d = (ok, d1)"
    by (cases "saveExisting e i r (toggleLike (req_id q) r) d")
  from saveExisting_Reviews [of e i r "toggleLike (req_id q) r" d] s
  have d1: "Reviews d1 = (if ok then (Reviews d)[i := toggleLike (req_id q) r] else Reviews d)"
    by simp
  show ?thesis using d1 by (auto simp: likeRoute_def Let_def Some s)
qed

text \<open>
  One request changes the collection in one of three ways, and a replaced document keeps
  its user, its book and its place.
\<close>

lemma request_Reviews:
  assumes "request d d'"
  shows "Reviews d' = Reviews d
       \<or> (\<exists>x. Reviews d' = Reviews d @ [x])
       \<or> (\<exists>i r x. findById d i = Some r \<and> Reviews d' = (Reviews d)[i := x]
             \<and> user x = user r \<and> book x = book r)"
  using assms
proof cases
  case (req_create e q b)
  with createReview_Reviews [of e q b d] show ?thesis by auto
next
  case (req_update e q i ub)
  have "user (applyAllowedFields ub r) = user r \<and> book (applyAllowedFields ub r) = book r" for r
    by (simp add: applyAllowedFields_def)
  with req_update updateReview_Reviews [of e q i ub d] show ?thesis by blast
next
  case (req_delete e q i)
  with deleteReview_Reviews [of e q i d] show ?thesis by fastforce
next
  case (req_helpful e q i)
  have "user (markHelpful u r) = user r \<and> book (markHelpful u r) = book r" for u r
    by (simp add: markHelpful_def split: option.split)
  with req_helpful helpfulRoute_Reviews [of e q i d] show ?thesis by blast
next
  case (req_like e q i)
  have "user (toggleLike u r) = user r \<and> book (toggleLike u r) = book r" for u r
    by (simp add: toggleLike_def split: option.split)
  with req_like likeRoute_Reviews [of e q i d] show ?thesis by blast
next
  case req_other
  then show ?thesis by simp
qed

lemma findById_nth: "findById d i = Some r \<Longrightarrow> i < length (Reviews d) \<and> Reviews d ! i = r"
  by (auto simp: findById_def split: if_splits)

lemma request_keeps_pair:
  assumes "request d d'" and "r0 \<in> set (Reviews d)"
  shows "\<exists>r1\<in>set (Reviews d'). user r1 = user r0 \<and> book r1 = book r0"
proof -
  from request_Reviews [OF assms(1)]
  consider "Reviews d' = Reviews d" | x where "Reviews d' = Reviews d @ [x]"
    | i r x where "findById d i = Some r" "Reviews d' = (Reviews d)[i := x]"
        "user x = user r" "book x = book r"
    by blast
  then show ?thesis
  proof cases
    case 1
    with assms(2) show ?thesis by auto
  next
    case 2
    with assms(2) show ?thesis by auto
  next
    case 3
    from findById_nth [OF 3(1)] have i: "i < length (Reviews d)" "Reviews d ! i = r" by simp_all
    from assms(2) obtain j where j: "j < length (Reviews d)" "Reviews d ! j = r0"
      by (auto simp: in_set_conv_nth)
    show ?thesis
    proof (cases "j = i")
      case True
      with i j 3 have "x \<in> set (Reviews d')" "user x = user r0" "book x = book r0"
        by (auto simp: set_update_memI)
      then show ?thesis by blast
    next
      case False
      with j 3(2) have "Reviews d' ! j = r0" "j < length (Reviews d')" by simp_all
      then have "r0 \<in> set (Reviews d')" by (metis nth_mem)
      then show ?thesis by blast
    qed
  qed
qed

lemma requests_keep_pair:
  assumes "request\<^sup>*\<^sup>* d d'" and "r0 \<in> set (Reviews d)"
  shows "\<exists>r1\<in>set (Reviews d'). user r1 = user r0 \<and> book r1 = book r0"
  using assms
proof (induction rule: rtranclp_induct)
  case base
  then show ?case by blast
next
  case (step y z)
  then obtain r1 where "r1 \<in> set (Reviews y)" "user r1 = user r0" "book r1 = book r0" by blast
  with request_keeps_pair [OF step.hyps(2), of r1] show ?case by auto
qed

lemma createReview_success:
  assumes "fst (createReview e q b d) = Inr r"
  shows "r = newReview e q b \<and> r \<in> set (Reviews (snd (createReview e q b d)))"
proof -
  obtain ok d1 where s: "saveNew e (newReview e q b) d = (ok, d1)"
    by (cases "saveNew e (newReview e q b) d")
  from saveNew_Reviews [of e "newReview e q b" d] s
  have d1: "Reviews d1 = (if ok then Reviews d @ [newReview e q b] else Reviews d)" by simp
  from assms show ?thesis
    using d1
    by (auto simp: createReview_def Let_def s split: option.splits if_splits
        dest!: updateAverageRating_frame incReviewsCount_frame)
qed

text \<open>
  Claim C10. Once a create request of a user for a book has succeeded, every later
  create request of that user for that book fails (with \<^verbatim>\<open>DuplicateReview\<close>, or with
  \<^verbatim>\<open>BookNotFound\<close> when the book has gone) and writes nothing, in every store that any
  sequence of requests leads to: deleting the review keeps its row, and the duplicate
  check does not look at \<^verbatim>\<open>isActive\<close>.
\<close>

theorem no_second_review_ever:
  assumes "fst (createReview e0 q0 b0 d0) = Inr r"
    and "request\<^sup>*\<^sup>* (snd (createReview e0 q0 b0 d0)) d"
    and "req_id q = req_id q0" and "body_bookId b = body_bookId b0"
  shows "createReview e q b d
           = (Inl (case Books d (body_bookId b) of
                     None \<Rightarrow> BookNotFound
                   | Some bk \<Rightarrow> if bookIsActive bk then DuplicateReview else BookNotFound), d)"
proof -
  from createReview_success [OF assms(1)]
  have r: "r = newReview e0 q0 b0" "r \<in> set (Reviews (snd (createReview e0 q0 b0 d0)))"
    by blast+
  from requests_keep_pair [OF assms(2) r(2)]
  obtain r1 where r1: "r1 \<in> set (Reviews d)" "user r1 = user r" "book r1 = book r" by blast
  from r(1) have "user r = req_id q0" "book r = body_bookId b0" by (simp_all add: newReview_def)
  with r1 assms(3,4) have "user r1 = req_id q" "book r1 = body_bookId b" by simp_all
  with r1(1) show ?thesis by (rule createReview_existing)
qed

section \<open>The scenario, request by request\<close>

lemma create1:
  "createReview (no_faults 0) userA (body_of 0 4) db0
     = (Inr (review_of 1 0 4),
        \<lparr>Reviews = [review_of 1 0 4],
         Books = [0 \<mapsto> \<lparr>averageRating = 4, totalRatings = 1, bookIsActive = True\<rparr>],
         Users = [1 \<mapsto> \<lparr>reviewsCount = 1\<rparr>, 3 \<mapsto> \<lparr>reviewsCount = 0\<rparr>]\<rparr>)"
  by (simp add: db0_def handler_defs example_defs fun_upd_twist)

lemma db1_eq:
  "db1 = \<lparr>Reviews = [review_of 1 0 4],
         Books = [0 \<mapsto> \<lparr>averageRating = 4, totalRatings = 1, bookIsActive = True\<rparr>],
         Users = [1 \<mapsto> \<lparr>reviewsCount = 1\<rparr>, 3 \<mapsto> \<lparr>reviewsCount = 0\<rparr>]\<rparr>"
  by (simp add: db1_def create1)

lemma create2:
  "createReview (no_faults 0) userC (body_of 0 2) db1
     = (Inr (review_of 3 0 2),
        \<lparr>Reviews = [review_of 1 0 4, review_of 3 0 2],
         Books = [0 \<mapsto> \<lparr>averageRating = 3, totalRatings = 2, bookIsActive = True\<rparr>],
         Users = [1 \<mapsto> \<lparr>reviewsCount = 1\<rparr>, 3 \<mapsto> \<lparr>reviewsCount = 1\<rparr>]\<rparr>)"
  by (simp add: db1_eq handler_defs example_defs fun_upd_twist)

lemma db2_eq:
  "db2 = \<lparr>Reviews = [review_of 1 0 4, review_of 3 0 2],
         Books = [0 \<mapsto> \<lparr>averageRating = 3, totalRatings = 2, bookIsActive = True\<rparr>],
         Users = [1 \<mapsto> \<lparr>reviewsCount = 1\<rparr>, 3 \<mapsto> \<lparr>reviewsCount = 1\<rparr>]\<rparr>"
  by (simp add: db2_def create2)

lemma update3:
  "updateReview (no_faults 0) userA 0 (no_fields\<lparr>put_rating := Some 5\<rparr>) db2
     = (Inr (review_of 1 0 5),
        \<lparr>Reviews = [review_of 1 0 5, review_of 3 0 2],
         Books = [0 \<mapsto> \<lparr>averageRating = 7 / 2, totalRatings = 2, bookIsActive = True\<rparr>],
         Users = [1 \<mapsto> \<lparr>reviewsCount = 1\<rparr>, 3 \<mapsto> \<lparr>reviewsCount = 1\<rparr>]\<rparr>)"
  by (simp add: db2_eq handler_defs example_defs fun_upd_twist)

lemma db3_eq:
  "db3 = \<lparr>Reviews = [review_of 1 0 5, review_of 3 0 2],
         Books = [0 \<mapsto> \<lparr>averageRating = 7 / 2, totalRatings = 2, bookIsActive = True\<rparr>],
         Users = [1 \<mapsto> \<lparr>reviewsCount = 1\<rparr>, 3 \<mapsto> \<lparr>reviewsCount = 1\<rparr>]\<rparr>"
  by (simp add: db3_def update3)

lemma delete4:
  "deleteReview (no_faults 0) userA 0 db3
     = (Inr (),
        \<lparr>Reviews = [(review_of 1 0 5)\<lparr>isActive := False\<rparr>, review_of 3 0 2],
         Books = [0 \<mapsto> \<lparr>averageRating = 7 / 2, totalRatings = 2, bookIsActive = True\<rparr>],
         Users = [1 \<mapsto> \<lparr>reviewsCount = 0\<rparr>, 3 \<mapsto> \<lparr>reviewsCount = 1\<rparr>]\<rparr>)"
  by (simp add: db3_eq handler_defs example_defs fun_upd_twist)

lemma db4_eq:
  "db4 = \<lparr>Reviews = [(review_of 1 0 5)\<lparr>isActive := False\<rparr>, review_of 3 0 2],
         Books = [0 \<mapsto> \<lparr>averageRating = 7 / 2, totalRatings = 2, bookIsActive = True\<rparr>],
         Users = [1 \<mapsto> \<lparr>reviewsCount = 0\<rparr>, 3 \<mapsto> \<lparr>reviewsCount = 1\<rparr>]\<rparr>"
  by (simp add: db4_def delete4)

lemma scenario_requests: "request\<^sup>*\<^sup>* db1 db4"
proof -
  have "request db1 db2" unfolding db2_def by (rule req_create)
  moreover have "request db2 db3" unfolding db3_def by (rule req_update)
  moreover have "request db3 db4" unfolding db4_def by (rule req_delete)
  ultimately show ?thesis by (meson rtranclp.rtrancl_into_rtrancl rtranclp.rtrancl_refl)
qed

theorem no_second_review_ever_witness:
  "fst (createReview (no_faults 0) userA (body_of 0 4) db0) = Inr (review_of 1 0 4)
   \<and> request\<^sup>*\<^sup>* (snd (createReview (no_faults 0) userA (body_of 0 4) db0)) db4
   \<and> findById db4 0 = Some ((review_of 1 0 5)\<lparr>isActive := False\<rparr>)
   \<and> createReview (no_faults 9) userA (body_of 0 3) db4 = (Inl DuplicateReview, db4)"
proof -
  have c: "fst (createReview (no_faults 0) userA (body_of 0 4) db0) = Inr (review_of 1 0 4)"
    by (simp add: create1)
  have r: "request\<^sup>*\<^sup>* (snd (createReview (no_faults 0) userA (body_of 0 4) db0)) db4"
    using scenario_requests by (simp add: db1_def)
  have f: "findById db4 0 = Some ((review_of 1 0 5)\<lparr>isActive := False\<rparr>)"
    by (simp add: db4_eq findById_def)
  have b: "Books db4 (body_bookId (body_of 0 3))
             = Some \<lparr>averageRating = 7 / 2, totalRatings = 2, bookIsActive = True\<rparr>"
    by (simp add: db4_eq body_of_def)
  have "createReview (no_faults 9) userA (body_of 0 3) db4
          = (Inl (case Books db4 (body_bookId (body_of 0 3)) of
                    None \<Rightarrow> BookNotFound
                  | Some bk \<Rightarrow> if bookIsActive bk then DuplicateReview else BookNotFound), db4)"
    by (rule no_second_review_ever [OF c r]) (simp_all add: body_of_def)
  then have "createReview (no_faults 9) userA (body_of 0 3) db4 = (Inl DuplicateReview, db4)"
    unfolding b by simp
  with c r f show ?thesis by blast
qed

section \<open>The aggregation counts deleted reviews (claim C1)\<close>

text \<open>
  The pipeline never reads \<^verbatim>\<open>isActive\<close>: it gives the same figures for a collection
  and for that collection with every review deleted.
\<close>

lemma aggregate_ignores_isActive:
  "aggregate b (map (\<lambda>r. r\<lparr>isActive := False\<rparr>) rs) = aggregate b rs"
proof -
  have "filter (\<lambda>r. book r = b) (map (\<lambda>r. r\<lparr>isActive := False\<rparr>) rs)
          = map (\<lambda>r. r\<lparr>isActive := False\<rparr>) (filter (\<lambda>r. book r = b) rs)"
    by (induction rs) simp_all
  then show ?thesis by (simp add: aggregate_def Let_def o_def)
qed

text \<open>
  Claim C1, which the code does not meet. It asks that, after every create, rating update
  and delete with its recomputation, \<^verbatim>\<open>totalRatings\<close> be the number of the active
  reviews of the book and \<^verbatim>\<open>averageRating\<close> their rounded mean. The pipeline of
  \<^verbatim>\<open>updateAverageRating\<close> matches on the book alone, so a deleted review goes on
  counting. At the end of the scenario the only active review of book 0 has rating 2, so
  that the claim asks for an average of 2 over 1 rating; the book holds 3.5 over 2.
\<close>

theorem deleted_review_still_counted:
  "fst (createReview (no_faults 0) userA (body_of 0 4) db0) = Inr (review_of 1 0 4)
   \<and> fst (createReview (no_faults 0) userC (body_of 0 2) db1) = Inr (review_of 3 0 2)
   \<and> fst (updateReview (no_faults 0) userA 0 (no_fields\<lparr>put_rating := Some 5\<rparr>) db2)
       = Inr (review_of 1 0 5)
   \<and> fst (deleteReview (no_faults 0) userA 0 db3) = Inr ()
   \<and> Books db1 0 = Some \<lparr>averageRating = 4, totalRatings = 1, bookIsActive = True\<rparr>
   \<and> Books db2 0 = Some \<lparr>averageRating = 3, totalRatings = 2, bookIsActive = True\<rparr>
   \<and> Books db3 0 = Some \<lparr>averageRating = 7 / 2, totalRatings = 2, bookIsActive = True\<rparr>
   \<and> Books db4 0 = Some \<lparr>averageRating = 7 / 2, totalRatings = 2, bookIsActive = True\<rparr>
   \<and> active_ratings_of 0 db4 = [2]
   \<and> round1 (mean (active_ratings_of 0 db4)) = 2
   \<and> int (length (active_ratings_of 0 db4)) = 1"
proof -
  have a: "active_ratings_of 0 db4 = [2]"
    by (simp add: active_ratings_of_def db4_eq review_of_def)
  have "round1 (mean [2]) = 2"
    by (simp add: round1_def mean_def round_half_away_def floor_divide_numeral_rat)
  with a have r: "round1 (mean (active_ratings_of 0 db4)) = 2"
    "int (length (active_ratings_of 0 db4)) = 1" by simp_all
  have c: "fst (createReview (no_faults 0) userA (body_of 0 4) db0) = Inr (review_of 1 0 4)"
    "fst (createReview (no_faults 0) userC (body_of 0 2) db1) = Inr (review_of 3 0 2)"
    "fst (updateReview (no_faults 0) userA 0 (no_fields\<lparr>put_rating := Some 5\<rparr>) db2)
       = Inr (review_of 1 0 5)"
    "fst (deleteReview (no_faults 0) userA 0 db3) = Inr ()"
    by (simp_all only: create1 create2 update3 delete4 fst_conv)
  have b: "Books db1 0 = Some \<lparr>averageRating = 4, totalRatings = 1, bookIsActive = True\<rparr>"
    "Books db2 0 = Some \<lparr>averageRating = 3, totalRatings = 2, bookIsActive = True\<rparr>"
    "Books db3 0 = Some \<lparr>averageRating = 7 / 2, totalRatings = 2, bookIsActive = True\<rparr>"
    "Books db4 0 = Some \<lparr>averageRating = 7 / 2, totalRatings = 2, bookIsActive = True\<rparr>"
    by (simp_all add: db1_eq db2_eq db3_eq db4_eq)
  from a r c b show ?thesis by blast
qed

section \<open>The aggregation on valid ratings\<close>

lemma map_filter_update:
  "i < length xs \<Longrightarrow> P y = P (xs ! i) \<Longrightarrow> f y = f (xs ! i) \<Longrightarrow>
   map f (filter P (xs[i := y])) = map f (filter P xs)"
proof (induction xs arbitrary: i)
  case Nil
  then show ?case by simp
next
  case (Cons x xs)
  then show ?case by (cases i) auto
qed

lemma ratings_of_update:
  assumes "findById d i = Some r" and "book x = book r" and "rating x = rating r"
  shows "ratings_of b (d\<lparr>Reviews := (Reviews d)[i := x]\<rparr>) = ratings_of b d"
proof -
  from findById_nth [OF assms(1)] have i: "i < length (Reviews d)" "Reviews d ! i = r"
    by simp_all
  with assms(2,3) show ?thesis
    by (simp add: ratings_of_def map_filter_update)
qed

text \<open>
  On a document that is the one the store holds, the recomputation stores what it
  assigns.
\<close>

lemma updateAverageRating_valid:
  assumes "\<forall>x\<in>set (ratings_of b d). valid_rating x" and "Books d b = Some bk"
  shows "updateAverageRating False b bk d
           = Some (d\<lparr>Books := (Books d)(b \<mapsto>
               bk\<lparr>averageRating :=
                     (if ratings_of b d = [] then 0 else round1 (mean (ratings_of b d))),
                   totalRatings := int (length (ratings_of b d))\<rparr>)\<rparr>)"
proof (cases "ratings_of b d = []")
  case True
  have "bk\<lparr>averageRating := if 0 \<noteq> averageRating bk then 0 else averageRating bk,
           totalRatings := if 0 \<noteq> totalRatings bk then 0 else totalRatings bk\<rparr>
          = bk\<lparr>averageRating := 0, totalRatings := 0\<rparr>"
    by simp
  with True assms(2) show ?thesis
    by (simp add: updateAverageRating_def recomputed_empty saveBook_def)
next
  case False
  from assms(1) have r: "\<forall>x\<in>set (ratings_of b d). 1 \<le> x \<and> x \<le> 5"
    by (simp add: valid_rating_def)
  from mean_bounds [OF False r] have m: "1 \<le> mean (ratings_of b d)" "mean (ratings_of b d) \<le> 5"
    by simp_all
  note s = stored_average_round1 [OF m]
  let ?a = "round1 (mean (ratings_of b d))"
  let ?n = "int (length (ratings_of b d))"
  have "bk\<lparr>averageRating := if ?a \<noteq> averageRating bk then ?a else averageRating bk,
           totalRatings := if ?n \<noteq> totalRatings bk then ?n else totalRatings bk\<rparr>
          = bk\<lparr>averageRating := ?a, totalRatings := ?n\<rparr>"
    by simp
  with False assms(2) s(2,3) show ?thesis
    by (simp add: updateAverageRating_def recomputed_nonempty [OF False r] saveBook_def)
qed

section \<open>Deleting a review (claim C7)\<close>

lemma no_faults_sel:
  "now (no_faults t) = t" "hookAggFails (no_faults t) = False"
  "reviewSaveFails (no_faults t) = False" "aggFails (no_faults t) = False"
  "counterFails (no_faults t) = False"
  by (simp_all add: no_faults_def)

lemma saveExisting_isActive:
  "saveExisting (no_faults t) i r (r\<lparr>isActive := False\<rparr>) d
     = (True, d\<lparr>Reviews := (Reviews d)[i := r\<lparr>isActive := False\<rparr>]\<rparr>)"
  by (simp add: saveExisting_def validate_modified_def preSaveHook_def no_faults_sel)

text \<open>
  Claim C7, as the code has it. For a review that exists and is active and a requester
  who may delete it (no write failing, the stored ratings of the book within 1 to 5), the
  delete handler succeeds; the review is still found under its identifier, now with
  \<^verbatim>\<open>isActive = false\<close>, and the collection has as many documents as before; the books
  are what \<^verbatim>\<open>updateAverageRating\<close> writes for the review's book on the collection that
  holds the deleted review; and the author's \<^verbatim>\<open>reviewsCount\<close> is one less than it was.
  The decrement has no floor.
\<close>

theorem delete_is_soft_and_decrements:
  assumes "findById d i = Some r" and "isActive r" and "\<not> accessDenied q r"
    and "\<forall>x\<in>set (ratings_of (book r) d). valid_rating x"
  shows "(let d' = snd (deleteReview (no_faults t) q i d) in
            fst (deleteReview (no_faults t) q i d) = Inr ()
          \<and> findById d' i = Some (r\<lparr>isActive := False\<rparr>)
          \<and> Reviews d' = (Reviews d)[i := r\<lparr>isActive := False\<rparr>]
          \<and> length (Reviews d') = length (Reviews d)
          \<and> (case Books d (book r) of
                None \<Rightarrow> Books d' = Books d
              | Some bk \<Rightarrow>
                  updateAverageRating False (book r) bk (d\<lparr>Reviews := Reviews d'\<rparr>)
                    = Some (d\<lparr>Reviews := Reviews d', Books := Books d'\<rparr>))
          \<and> (case Users d (user r) of
                None \<Rightarrow> Users d' = Users d
              | Some u \<Rightarrow>
                  Users d' = (Users d)(user r \<mapsto> u\<lparr>reviewsCount := reviewsCount u - 1\<rparr>)))"
proof -
  let ?del = "r\<lparr>isActive := False\<rparr>"
  let ?d1 = "d\<lparr>Reviews := (Reviews d)[i := ?del]\<rparr>"
  from findById_nth [OF assms(1)] have i: "i < length (Reviews d)" by simp
  have f1: "findById ?d1 i = Some ?del" using i by (simp add: findById_def)
  have r1: "ratings_of (book r) ?d1 = ratings_of (book r) d"
    using ratings_of_update [OF assms(1), of ?del "book r"] by simp
  show ?thesis
  proof (cases "Books d (book r)")
    case None
    then show ?thesis
      using assms(1-3) i
      by (simp add: deleteReview_def saveExisting_isActive incReviewsCount_def Let_def
          findById_def no_faults_sel split: option.split)
  next
    case (Some bk)
    from assms(4) r1 have "\<forall>x\<in>set (ratings_of (book r) ?d1). valid_rating x" by simp
    moreover have "Books ?d1 (book r) = Some bk" using Some by simp
    ultimately obtain bk' where u: "updateAverageRating False (book r) bk ?d1
                           = Some (?d1\<lparr>Books := (Books d)(book r \<mapsto> bk')\<rparr>)"
      using updateAverageRating_valid [of "book r" ?d1 bk] by simp
    show ?thesis
      using assms(1-3) i Some u
      by (simp add: deleteReview_def saveExisting_isActive incReviewsCount_def Let_def
          findById_def no_faults_sel split: option.split)
  qed
qed


theorem delete_is_soft_and_decrements_witness:
  "findById db3 0 = Some (review_of 1 0 5) \<and> isActive (review_of 1 0 5)
   \<and> \<not> accessDenied userA (review_of 1 0 5)
   \<and> ratings_of (book (review_of 1 0 5)) db3 = [5, 2]
   \<and> fst (deleteReview (no_faults 0) userA 0 db3) = Inr ()
   \<and> findById db4 0 = Some ((review_of 1 0 5)\<lparr>isActive := False\<rparr>)
   \<and> length (Reviews db4) = length (Reviews db3)
   \<and> Users db3 1 = Some \<lparr>reviewsCount = 1\<rparr>
   \<and> Users db4 1 = Some \<lparr>reviewsCount = 0\<rparr>"
proof -
  have h: "findById db3 0 = Some (review_of 1 0 5)" "isActive (review_of 1 0 5)"
    "\<not> accessDenied userA (review_of 1 0 5)"
    by (simp_all add: db3_eq findById_def accessDenied_def userA_def review_of_def)
  have rs: "ratings_of (book (review_of 1 0 5)) db3 = [5, 2]"
    by (simp add: ratings_of_def db3_eq review_of_def)
  then have v: "\<forall>x\<in>set (ratings_of (book (review_of 1 0 5)) db3). valid_rating x"
    by (simp add: valid_rating_def)
  from delete_is_soft_and_decrements [OF h v, of 0]
  have "fst (deleteReview (no_faults 0) userA 0 db3) = Inr ()"
    "findById db4 0 = Some ((review_of 1 0 5)\<lparr>isActive := False\<rparr>)"
    "length (Reviews db4) = length (Reviews db3)"
    by (simp_all add: Let_def db4_def)
  moreover have "Users db3 1 = Some \<lparr>reviewsCount = 1\<rparr>" "Users db4 1 = Some \<lparr>reviewsCount = 0\<rparr>"
    by (simp_all add: db3_eq db4_eq)
  ultimately show ?thesis using h rs by blast
qed

lemma create_uncounted:
  "createReview ((no_faults 0)\<lparr>counterFails := True\<rparr>) userA (body_of 0 4) db0
     = (Inl ServerError,
        \<lparr>Reviews = [review_of 1 0 4],
         Books = [0 \<mapsto> \<lparr>averageRating = 4, totalRatings = 1, bookIsActive = True\<rparr>],
         Users = [1 \<mapsto> \<lparr>reviewsCount = 0\<rparr>, 3 \<mapsto> \<lparr>reviewsCount = 0\<rparr>]\<rparr>)"
  by (simp add: db0_def handler_defs example_defs)

lemma db_uncounted_eq:
  "db_uncounted
     = \<lparr>Reviews = [review_of 1 0 4],
        Books = [0 \<mapsto> \<lparr>averageRating = 4, totalRatings = 1, bookIsActive = True\<rparr>],
        Users = [1 \<mapsto> \<lparr>reviewsCount = 0\<rparr>, 3 \<mapsto> \<lparr>reviewsCount = 0\<rparr>]\<rparr>"
  by (simp add: db_uncounted_def create_uncounted)

lemma delete_uncounted:
  "deleteReview (no_faults 0) userA 0 db_uncounted
     = (Inr (),
        \<lparr>Reviews = [(review_of 1 0 4)\<lparr>isActive := False\<rparr>],
         Books = [0 \<mapsto> \<lparr>averageRating = 4, totalRatings = 1, bookIsActive = True\<rparr>],
         Users = [1 \<mapsto> \<lparr>reviewsCount = - 1\<rparr>, 3 \<mapsto> \<lparr>reviewsCount = 0\<rparr>]\<rparr>)"
  by (simp add: db_uncounted_eq handler_defs example_defs fun_upd_twist)

text \<open>
  Counterexample to C7 as it is written, which gives the decrement a floor at 0: the
  handler runs \<^verbatim>\<open>$inc: {reviewsCount: -1}\<close> and nothing else. Here the create request of
  user 1 wrote the review and then failed on the counter, which stayed at 0; the delete
  request that follows takes it to -1.
\<close>

theorem reviewsCount_below_zero_counterexample:
  "fst (createReview ((no_faults 0)\<lparr>counterFails := True\<rparr>) userA (body_of 0 4) db0)
     = Inl ServerError
   \<and> findById db_uncounted 0 = Some (review_of 1 0 4)
   \<and> isActive (review_of 1 0 4)
   \<and> Users db_uncounted 1 = Some \<lparr>reviewsCount = 0\<rparr>
   \<and> fst (deleteReview (no_faults 0) userA 0 db_uncounted) = Inr ()
   \<and> Users (snd (deleteReview (no_faults 0) userA 0 db_uncounted)) 1
       = Some \<lparr>reviewsCount = - 1\<rparr>"
proof -
  have "findById db_uncounted 0 = Some (review_of 1 0 4)" "isActive (review_of 1 0 4)"
    "Users db_uncounted 1 = Some \<lparr>reviewsCount = 0\<rparr>"
    by (simp_all add: db_uncounted_eq findById_def review_of_def)
  moreover have "fst (createReview ((no_faults 0)\<lparr>counterFails := True\<rparr>) userA (body_of 0 4) db0)
     = Inl ServerError"
    by (simp only: create_uncounted fst_conv)
  moreover have "fst (deleteReview (no_faults 0) userA 0 db_uncounted) = Inr ()"
    "Users (snd (deleteReview (no_faults 0) userA 0 db_uncounted)) 1
       = Some \<lparr>reviewsCount = - 1\<rparr>"
    by (simp_all add: delete_uncounted)
  ultimately show ?thesis by blast
qed

section \<open>Updating a review (claim C9)\<close>







lemma applyAllowedFields_book: "book (applyAllowedFields b r) = book r"
  by (simp add: applyAllowedFields_def)










section \<open>A failing aggregation is reported (claim C8)\<close>

lemma updateAverageRating_rejected: "updateAverageRating True b bk d = None"
  by (simp add: updateAverageRating_def saveBook_def)

lemma updateAverageRating_Books:
  "updateAverageRating f b bk d = Some d' \<Longrightarrow> \<exists>bk'. Books d' = (Books d)(b \<mapsto> bk')"
  by (auto simp: updateAverageRating_def saveBook_def split: if_splits option.splits)

lemma preSaveHook_keeps_book:
  assumes "Books d b = Some bk"
  shows "\<exists>bk'. Books (preSaveHook e trig this d) b = Some bk'"
proof (cases "trig \<and> Books d (book this) \<noteq> None")
  case False
  then have "preSaveHook e trig this d = d" by (auto simp: preSaveHook_def)
  with assms show ?thesis by simp
next
  case True
  then obtain bk0 where bk0: "Books d (book this) = Some bk0" and t: trig by auto
  show ?thesis
  proof (cases "updateAverageRating (hookAggFails e) (book this) bk0 d")
    case None
    with bk0 t have "preSaveHook e trig this d = d" by (simp add: preSaveHook_def)
    with assms show ?thesis by simp
  next
    case (Some d')
    with bk0 t have h: "preSaveHook e trig this d = d'" by (simp add: preSaveHook_def)
    from updateAverageRating_Books [OF Some] obtain bk' where
      "Books d' = (Books d)(book this \<mapsto> bk')" by blast
    with assms h show ?thesis by (cases "b = book this") simp_all
  qed
qed

text \<open>The three handlers on the path that writes the review, when the aggregation is rejected.\<close>

lemma createReview_aggregation_rejected:
  assumes "aggFails e" and "\<not> reviewSaveFails e"
    and "Books d (body_bookId b) = Some bk" and "bookIsActive bk"
    and "List.find (\<lambda>r. user r = req_id q \<and> book r = body_bookId b) (Reviews d) = None"
    and "validate_new (newReview e q b)"
  shows "fst (createReview e q b d) = Inl ServerError
       \<and> Reviews (snd (createReview e q b d)) = Reviews d @ [newReview e q b]"
proof -
  have s: "saveNew e (newReview e q b) d
             = (True, (preSaveHook e True (newReview e q b) d)
                        \<lparr>Reviews := Reviews d @ [newReview e q b]\<rparr>)"
    using assms(2,6) by (simp add: saveNew_def Let_def preSaveHook_frame)
  show ?thesis
    using assms(1,3,4,5)
    by (simp add: createReview_def Let_def s updateAverageRating_rejected)
qed

lemma updateReview_aggregation_rejected:
  assumes "aggFails e" and "\<not> reviewSaveFails e"
    and "findById d i = Some r" and "isActive r" and "\<not> accessDenied q r"
    and "validate_modified r (applyAllowedFields ub r)"
    and "put_rating ub = Some v" and "Books d (book r) = Some bk"
  shows "fst (updateReview e q i ub d) = Inl ServerError
       \<and> Reviews (snd (updateReview e q i ub d)) = (Reviews d)[i := applyAllowedFields ub r]"
proof -
  let ?r' = "applyAllowedFields ub r"
  let ?h = "preSaveHook e (rating ?r' \<noteq> rating r) ?r' d"
  have s: "saveExisting e i r ?r' d = (True, ?h\<lparr>Reviews := (Reviews d)[i := ?r']\<rparr>)"
    using assms(2,6) by (simp add: saveExisting_def Let_def preSaveHook_frame)
  from preSaveHook_keeps_book [OF assms(8)]
  obtain bk' where "Books ?h (book r) = Some bk'" by blast
  then have b: "Books (?h\<lparr>Reviews := (Reviews d)[i := ?r']\<rparr>) (book ?r') = Some bk'"
    by (simp add: applyAllowedFields_book)
  show ?thesis
    using assms(1,3,4,5,7) b
    by (simp add: updateReview_def Let_def s updateAverageRating_rejected)
qed

lemma deleteReview_aggregation_rejected:
  assumes "aggFails e" and "\<not> reviewSaveFails e"
    and "findById d i = Some r" and "isActive r" and "\<not> accessDenied q r"
    and "Books d (book r) = Some bk"
  shows "fst (deleteReview e q i d) = Inl ServerError
       \<and> Reviews (snd (deleteReview e q i d)) = (Reviews d)[i := r\<lparr>isActive := False\<rparr>]"
proof -
  have s: "saveExisting e i r (r\<lparr>isActive := False\<rparr>) d
             = (True, d\<lparr>Reviews := (Reviews d)[i := r\<lparr>isActive := False\<rparr>]\<rparr>)"
    using assms(2) by (simp add: saveExisting_def validate_modified_def preSaveHook_def)
  show ?thesis
    using assms(1,3,4,5,6)
    by (simp add: deleteReview_def Let_def s updateAverageRating_rejected)
qed

text \<open>With the aggregation rejected, no handler that has to aggregate answers with success.\<close>

lemma createReview_never_succeeds:
  assumes "aggFails e"
  shows "\<exists>err. fst (createReview e q b d) = Inl err"
proof -
  obtain ok d1 where s: "saveNew e (newReview e q b) d = (ok, d1)"
    by (cases "saveNew e (newReview e q b) d")
  show ?thesis
    using assms
    by (simp add: createReview_def Let_def s updateAverageRating_rejected split: option.split)
qed

lemma updateReview_never_succeeds:
  assumes "aggFails e" and "findById d i = Some r" and "put_rating ub = Some v"
    and "Books d (book r) = Some bk"
  shows "\<exists>err. fst (updateReview e q i ub d) = Inl err"
proof -
  let ?r' = "applyAllowedFields ub r"
  obtain ok d1 where s: "saveExisting e i r ?r' d = (ok, d1)"
    by (cases "saveExisting e i r ?r' d")
  from preSaveHook_keeps_book [OF assms(4), of e "rating ?r' \<noteq> rating r" ?r']
  obtain bk' where "Books (preSaveHook e (rating ?r' \<noteq> rating r) ?r' d) (book r) = Some bk'"
    by blast
  with s have "ok \<Longrightarrow> Books d1 (book ?r') = Some bk'"
    by (auto simp: saveExisting_def Let_def applyAllowedFields_book split: if_splits)
  then show ?thesis
    using assms(1,2,3)
    by (auto simp: updateReview_def Let_def s updateAverageRating_rejected)
qed

lemma deleteReview_never_succeeds:
  assumes "aggFails e" and "findById d i = Some r" and "Books d (book r) = Some bk"
  shows "\<exists>err. fst (deleteReview e q i d) = Inl err"
proof -
  let ?r' = "r\<lparr>isActive := False\<rparr>"
  obtain ok d1 where s: "saveExisting e i r ?r' d = (ok, d1)"
    by (cases "saveExisting e i r ?r' d")
  then have "ok \<Longrightarrow> Books d1 (book r) = Some bk"
    using assms(3)
    by (auto simp: saveExisting_def Let_def preSaveHook_def split: if_splits)
  then show ?thesis
    using assms(1,2)
    by (auto simp: deleteReview_def Let_def s updateAverageRating_rejected)
qed

text \<open>
  Claim C8. When the store rejects the write of the aggregation that a handler runs
  after it has written the review, the handler answers with a server error, for a create,
  for an update that holds a rating and for a delete, whatever else fails or does not: the
  review is in the collection as written and the response is never a success. (The
  aggregation that the pre-save hook starts runs before the review is written; what it
  throws is caught there, and the handler's own aggregation follows.)
\<close>

theorem aggregation_failure_is_reported:
  assumes "aggFails e"
  shows "(\<exists>err. fst (createReview e q b d) = Inl err)
       \<and> (findById d i = Some r \<and> put_rating ub \<noteq> None \<and> Books d (book r) \<noteq> None
            \<longrightarrow> (\<exists>err. fst (updateReview e q i ub d) = Inl err))
       \<and> (findById d i = Some r \<and> Books d (book r) \<noteq> None
            \<longrightarrow> (\<exists>err. fst (deleteReview e q i d) = Inl err))
       \<and> (\<not> reviewSaveFails e
            \<and> (case Books d (body_bookId b) of None \<Rightarrow> False | Some bk \<Rightarrow> bookIsActive bk)
            \<and> List.find (\<lambda>r. user r = req_id q \<and> book r = body_bookId b) (Reviews d) = None
            \<and> validate_new (newReview e q b)
            \<longrightarrow> fst (createReview e q b d) = Inl ServerError
                \<and> Reviews (snd (createReview e q b d)) = Reviews d @ [newReview e q b])
       \<and> (\<not> reviewSaveFails e \<and> findById d i = Some r \<and> isActive r \<and> \<not> accessDenied q r
            \<and> validate_modified r (applyAllowedFields ub r)
            \<and> put_rating ub \<noteq> None \<and> Books d (book r) \<noteq> None
            \<longrightarrow> fst (updateReview e q i ub d) = Inl ServerError
                \<and> Reviews (snd (updateReview e q i ub d))
                    = (Reviews d)[i := applyAllowedFields ub r])
       \<and> (\<not> reviewSaveFails e \<and> findById d i = Some r \<and> isActive r \<and> \<not> accessDenied q r
            \<and> Books d (book r) \<noteq> None
            \<longrightarrow> fst (deleteReview e q i d) = Inl ServerError
                \<and> Reviews (snd (deleteReview e q i d)) = (Reviews d)[i := r\<lparr>isActive := False\<rparr>])"
proof (intro conjI impI)
  show "\<exists>err. fst (createReview e q b d) = Inl err"
    using assms by (rule createReview_never_succeeds)
next
  assume "findById d i = Some r \<and> put_rating ub \<noteq> None \<and> Books d (book r) \<noteq> None"
  then obtain v bk where "findById d i = Some r" "put_rating ub = Some v" "Books d (book r) = Some bk"
    by auto
  with assms show "\<exists>err. fst (updateReview e q i ub d) = Inl err"
    by (rule updateReview_never_succeeds)
next
  assume "findById d i = Some r \<and> Books d (book r) \<noteq> None"
  then obtain bk where "findById d i = Some r" "Books d (book r) = Some bk" by auto
  with assms show "\<exists>err. fst (deleteReview e q i d) = Inl err"
    by (rule deleteReview_never_succeeds)
next
  assume h: "\<not> reviewSaveFails e
     \<and> (case Books d (body_bookId b) of None \<Rightarrow> False | Some bk \<Rightarrow> bookIsActive bk)
     \<and> List.find (\<lambda>r. user r = req_id q \<and> book r = body_bookId b) (Reviews d) = None
     \<and> validate_new (newReview e q b)"
  then obtain bk where bk: "Books d (body_bookId b) = Some bk" "bookIsActive bk"
    by (cases "Books d (body_bookId b)") auto
  from h have "\<not> reviewSaveFails e"
    "List.find (\<lambda>r. user r = req_id q \<and> book r = body_bookId b) (Reviews d) = None"
    "validate_new (newReview e q b)" by blast+
  from createReview_aggregation_rejected [OF assms this(1) bk this(2,3)]
  show "fst (createReview e q b d) = Inl ServerError"
    "Reviews (snd (createReview e q b d)) = Reviews d @ [newReview e q b]" by blast+
next
  assume h: "\<not> reviewSaveFails e \<and> findById d i = Some r \<and> isActive r \<and> \<not> accessDenied q r
     \<and> validate_modified r (applyAllowedFields ub r)
     \<and> put_rating ub \<noteq> None \<and> Books d (book r) \<noteq> None"
  then obtain v bk where vb: "put_rating ub = Some v" "Books d (book r) = Some bk" by auto
  from h have "\<not> reviewSaveFails e" "findById d i = Some r" "isActive r" "\<not> accessDenied q r"
    "validate_modified r (applyAllowedFields ub r)" by blast+
  from updateReview_aggregation_rejected [OF assms this vb]
  show "fst (updateReview e q i ub d) = Inl ServerError"
    "Reviews (snd (updateReview e q i ub d)) = (Reviews d)[i := applyAllowedFields ub r]"
    by blast+
next
  assume h: "\<not> reviewSaveFails e \<and> findById d i = Some r \<and> isActive r \<and> \<not> accessDenied q r
     \<and> Books d (book r) \<noteq> None"
  then obtain bk where bk: "Books d (book r) = Some bk" by auto
  from h have "\<not> reviewSaveFails e" "findById d i = Some r" "isActive r" "\<not> accessDenied q r"
    by blast+
  from deleteReview_aggregation_rejected [OF assms this bk]
  show "fst (deleteReview e q i d) = Inl ServerError"
    "Reviews (snd (deleteReview e q i d)) = (Reviews d)[i := r\<lparr>isActive := False\<rparr>]"
    by blast+
qed

lemma agg_rejected_sel: "aggFails agg_rejected" "\<not> reviewSaveFails agg_rejected"
  by (simp_all add: agg_rejected_def no_faults_def)

theorem aggregation_failure_is_reported_witness:
  "aggFails agg_rejected \<and> \<not> reviewSaveFails agg_rejected
   \<and> Books db0 0 = Some book0 \<and> bookIsActive book0 \<and> Reviews db0 = []
   \<and> validate_new (newReview agg_rejected userA (body_of 0 4))
   \<and> fst (createReview agg_rejected userA (body_of 0 4) db0) = Inl ServerError
   \<and> Reviews (snd (createReview agg_rejected userA (body_of 0 4) db0))
       = [newReview agg_rejected userA (body_of 0 4)]
   \<and> findById db2 0 = Some (review_of 1 0 4) \<and> isActive (review_of 1 0 4)
   \<and> \<not> accessDenied userA (review_of 1 0 4)
   \<and> validate_modified (review_of 1 0 4)
        (applyAllowedFields (no_fields\<lparr>put_rating := Some 5\<rparr>) (review_of 1 0 4))
   \<and> put_rating (no_fields\<lparr>put_rating := Some 5\<rparr>) = Some 5
   \<and> Books db2 0 = Some \<lparr>averageRating = 3, totalRatings = 2, bookIsActive = True\<rparr>
   \<and> fst (updateReview agg_rejected userA 0 (no_fields\<lparr>put_rating := Some 5\<rparr>) db2)
       = Inl ServerError
   \<and> Reviews (snd (updateReview agg_rejected userA 0 (no_fields\<lparr>put_rating := Some 5\<rparr>) db2))
       = [review_of 1 0 5, review_of 3 0 2]
   \<and> fst (deleteReview agg_rejected userA 0 db2) = Inl ServerError
   \<and> Reviews (snd (deleteReview agg_rejected userA 0 db2))
       = [(review_of 1 0 4)\<lparr>isActive := False\<rparr>, review_of 3 0 2]"
proof -
  note a = agg_rejected_sel
  have c: "Books db0 0 = Some book0" "bookIsActive book0" "Reviews db0 = []"
    "validate_new (newReview agg_rejected userA (body_of 0 4))"
    by (simp_all add: db0_def book0_def validate_new_def newReview_def body_of_def
        valid_rating_def valid_title_def valid_content_def valid_price_def valid_tags_def
        valid_purchaseSource_def)
  have c': "case Books db0 (body_bookId (body_of 0 4)) of None \<Rightarrow> False | Some bk \<Rightarrow> bookIsActive bk"
    "List.find (\<lambda>r. user r = req_id userA \<and> book r = body_bookId (body_of 0 4)) (Reviews db0) = None"
    using c(2) by (simp_all add: db0_def body_of_def)
  from aggregation_failure_is_reported [OF a(1), where q = userA and b = "body_of 0 4"
      and d = db0 and i = 0 and r = "review_of 1 0 4" and ub = no_fields] a(2) c' c(4)
  have r1: "fst (createReview agg_rejected userA (body_of 0 4) db0) = Inl ServerError"
    "Reviews (snd (createReview agg_rejected userA (body_of 0 4) db0))
       = Reviews db0 @ [newReview agg_rejected userA (body_of 0 4)]"
    by blast+
  have u: "findById db2 0 = Some (review_of 1 0 4)" "isActive (review_of 1 0 4)"
    "\<not> accessDenied userA (review_of 1 0 4)"
    "validate_modified (review_of 1 0 4)
        (applyAllowedFields (no_fields\<lparr>put_rating := Some 5\<rparr>) (review_of 1 0 4))"
    "put_rating (no_fields\<lparr>put_rating := Some 5\<rparr>) = Some 5"
    "Books db2 0 = Some \<lparr>averageRating = 3, totalRatings = 2, bookIsActive = True\<rparr>"
    by (simp_all add: db2_eq findById_def accessDenied_def userA_def review_of_def
        validate_modified_def applyAllowedFields_def no_fields_def valid_rating_def)
  have u': "put_rating (no_fields\<lparr>put_rating := Some 5\<rparr>) \<noteq> None"
    "Books db2 (book (review_of 1 0 4)) \<noteq> None"
    using u(5,6) by (simp_all add: review_of_def)
  from aggregation_failure_is_reported [OF a(1), where q = userA and b = "body_of 0 4"
      and d = db2 and i = 0 and r = "review_of 1 0 4"
      and ub = "no_fields\<lparr>put_rating := Some 5\<rparr>"] a(2) u(1-4) u'
  have r2: "fst (updateReview agg_rejected userA 0 (no_fields\<lparr>put_rating := Some 5\<rparr>) db2)
       = Inl ServerError"
    "Reviews (snd (updateReview agg_rejected userA 0 (no_fields\<lparr>put_rating := Some 5\<rparr>) db2))
       = (Reviews db2)[0 := applyAllowedFields (no_fields\<lparr>put_rating := Some 5\<rparr>) (review_of 1 0 4)]"
    "fst (deleteReview agg_rejected userA 0 db2) = Inl ServerError"
    "Reviews (snd (deleteReview agg_rejected userA 0 db2))
       = (Reviews db2)[0 := (review_of 1 0 4)\<lparr>isActive := False\<rparr>]"
    by blast+
  have e1: "Reviews db0 @ [newReview agg_rejected userA (body_of 0 4)]
              = [newReview agg_rejected userA (body_of 0 4)]"
    by (simp add: c(3))
  have e2: "(Reviews db2)[0 := applyAllowedFields (no_fields\<lparr>put_rating := Some 5\<rparr>) (review_of 1 0 4)]
              = [review_of 1 0 5, review_of 3 0 2]"
    "(Reviews db2)[0 := (review_of 1 0 4)\<lparr>isActive := False\<rparr>]
              = [(review_of 1 0 4)\<lparr>isActive := False\<rparr>, review_of 3 0 2]"
    by (simp_all add: db2_eq applyAllowedFields_def no_fields_def review_of_def)
  from r1 r2 show ?thesis unfolding e1 e2 using a c u by blast
qed


text \<open>
  The aggregation of the pre-save hook alone being rejected changes nothing: the hook
  catches it, the handler's own aggregation runs after the write, and the request ends as
  it does without any failure.
\<close>

lemma rejected_hook_aggregation_example:
  "createReview ((no_faults 0)\<lparr>hookAggFails := True\<rparr>) userA (body_of 0 4) db0
     = createReview (no_faults 0) userA (body_of 0 4) db0"
  unfolding create1 by (simp add: db0_def handler_defs example_defs fun_upd_twist)

section \<open>What holds of every review that requests have written\<close>

lemma saveNew_validated: "fst (saveNew e this d) \<Longrightarrow> validate_new this"
  by (simp add: saveNew_def Let_def split: if_splits)

lemma saveExisting_validated: "fst (saveExisting e i old this d) \<Longrightarrow> validate_modified old this"
  by (simp add: saveExisting_def Let_def split: if_splits)

text \<open>
  A review is well formed when its rating is within the bounds of the schema and each of
  its two voter arrays lists no user twice and has as many entries as its counter says.
\<close>

lemma newReview_well_formed:
  "validate_new (newReview e q b) \<Longrightarrow>
   valid_rating (rating (newReview e q b)) \<and> votes_ok (helpful (newReview e q b))
   \<and> votes_ok (likes (newReview e q b))"
  by (simp add: validate_new_def newReview_def votes_ok_def)

lemma createReview_appends_valid:
  "Reviews (snd (createReview e q b d)) = Reviews d
   \<or> (Reviews (snd (createReview e q b d)) = Reviews d @ [newReview e q b]
       \<and> validate_new (newReview e q b))"
proof (cases "fst (saveNew e (newReview e q b) d)")
  case True
  then have "validate_new (newReview e q b)" by (rule saveNew_validated)
  with createReview_Reviews [of e q b d] show ?thesis by blast
next
  case False
  obtain ok d1 where s: "saveNew e (newReview e q b) d = (ok, d1)"
    by (cases "saveNew e (newReview e q b) d")
  with False have ok: "\<not> ok" by simp
  from saveNew_Reviews [of e "newReview e q b" d] s ok have "Reviews d1 = Reviews d" by simp
  then have "Reviews (snd (createReview e q b d)) = Reviews d"
    using ok by (simp add: createReview_def Let_def s split: option.split)
  then show ?thesis by blast
qed

lemma replaced_review_well_formed:
  assumes "valid_rating (rating r)" and "votes_ok (helpful r)" and "votes_ok (likes r)"
    and "validate_modified r x"
    and "x = applyAllowedFields b r \<or> x = r\<lparr>isActive := False\<rparr>
         \<or> x = markHelpful u r \<or> x = toggleLike u r"
  shows "valid_rating (rating x) \<and> votes_ok (helpful x) \<and> votes_ok (likes x)"
proof -
  from assms(1,4) have "valid_rating (rating x)" by (auto simp: validate_modified_def)
  moreover from assms(2,3,5) have "votes_ok (helpful x) \<and> votes_ok (likes x)"
    by (auto simp: applyAllowedFields_def markHelpful_votes_ok toggleLike_votes_ok
        markHelpful_likes toggleLike_helpful)
  ultimately show ?thesis by blast
qed

lemma updateReview_replaces_valid:
  "Reviews (snd (updateReview e q i b d)) = Reviews d
   \<or> (\<exists>r. findById d i = Some r \<and> validate_modified r (applyAllowedFields b r)
         \<and> Reviews (snd (updateReview e q i b d)) = (Reviews d)[i := applyAllowedFields b r])"
proof (cases "findById d i")
  case None
  then show ?thesis by (simp add: updateReview_def)
next
  case (Some r)
  obtain ok d1 where s: "saveExisting e i r (applyAllowedFields b r) d = (ok, d1)"
    by (cases "saveExisting e i r (applyAllowedFields b r) d")
  from saveExisting_Reviews [of e i r "applyAllowedFields b r" d] s
  have d1: "Reviews d1 = (if ok then (Reviews d)[i := applyAllowedFields b r] else Reviews d)"
    by simp
  from saveExisting_validated [of e i r "applyAllowedFields b r" d] s
  have v: "ok \<Longrightarrow> validate_modified r (applyAllowedFields b r)" by simp
  show ?thesis
  proof (cases ok)
    case True
    with v have "validate_modified r (applyAllowedFields b r)" by simp
    moreover from True d1 have "Reviews d1 = (Reviews d)[i := applyAllowedFields b r]" by simp
    ultimately show ?thesis
      using updateReview_Reviews [of e q i b d] Some by auto
  next
    case False
    with d1 have "Reviews d1 = Reviews d" by simp
    with False have "Reviews (snd (updateReview e q i b d)) = Reviews d"
      by (simp add: updateReview_def Let_def Some s)
    then show ?thesis by blast
  qed
qed

lemma deleteReview_replaces_valid:
  "Reviews (snd (deleteReview e q i d)) = Reviews d
   \<or> (\<exists>r. findById d i = Some r \<and> validate_modified r (r\<lparr>isActive := False\<rparr>)
         \<and> Reviews (snd (deleteReview e q i d)) = (Reviews d)[i := r\<lparr>isActive := False\<rparr>])"
proof (cases "findById d i")
  case None
  then show ?thesis by (simp add: deleteReview_def)
next
  case (Some r)
  obtain ok d1 where s: "saveExisting e i r (r\<lparr>isActive := False\<rparr>) d = (ok, d1)"
    by (cases "saveExisting e i r (r\<lparr>isActive := False\<rparr>) d")
  from saveExisting_Reviews [of e i r "r\<lparr>isActive := False\<rparr>" d] s
  have d1: "Reviews d1 = (if ok then (Reviews d)[i := r\<lparr>isActive := False\<rparr>] else Reviews d)"
    by simp
  from saveExisting_validated [of e i r "r\<lparr>isActive := False\<rparr>" d] s
  have v: "ok \<Longrightarrow> validate_modified r (r\<lparr>isActive := False\<rparr>)" by simp
  show ?thesis
  proof (cases ok)
    case True
    with v have "validate_modified r (r\<lparr>isActive := False\<rparr>)" by simp
    moreover from True d1 have "Reviews d1 = (Reviews d)[i := r\<lparr>isActive := False\<rparr>]" by simp
    ultimately show ?thesis
      using deleteReview_Reviews [of e q i d] Some by auto
  next
    case False
    with d1 have "Reviews d1 = Reviews d" by simp
    with False have "Reviews (snd (deleteReview e q i d)) = Reviews d"
      by (simp add: deleteReview_def Let_def Some s)
    then show ?thesis by blast
  qed
qed

lemma helpfulRoute_replaces_valid:
  "Reviews (snd (helpfulRoute e q i d)) = Reviews d
   \<or> (\<exists>r. findById d i = Some r \<and> validate_modified r (markHelpful (req_id q) r)
         \<and> Reviews (snd (helpfulRoute e q i d)) = (Reviews d)[i := markHelpful (req_id q) r])"
proof (cases "findById d i")
  case None
  then show ?thesis by (simp add: helpfulRoute_def)
next
  case (Some r)
  obtain ok d1 where s: "saveExisting e i r (markHelpful (req_id q) r) d = (ok, d1)"
    by (cases "saveExisting e i r (markHelpful (req_id q) r) d")
  from saveExisting_Reviews [of e i r "markHelpful (req_id q) r" d] s
  have d1: "Reviews d1 = (if ok then (Reviews d)[i := markHelpful (req_id q) r] else Reviews d)"
    by simp
  from saveExisting_validated [of e i r "markHelpful (req_id q) r" d] s
  have v: "ok \<Longrightarrow> validate_modified r (markHelpful (req_id q) r)" by simp
  show ?thesis
  proof (cases ok)
    case True
    with v have "validate_modified r (markHelpful (req_id q) r)" by simp
    moreover from True d1 have "Reviews d1 = (Reviews d)[i := markHelpful (req_id q) r]" by simp
    ultimately show ?thesis
      using helpfulRoute_Reviews [of e q i d] Some by auto
  next
    case False
    with d1 have "Reviews d1 = Reviews d" by simp
    with False have "Reviews (snd (helpfulRoute e q i d)) = Reviews d"
      by (simp add: helpfulRoute_def Let_def Some s)
    then show ?thesis by blast
  qed
qed

lemma likeRoute_replaces_valid:
  "Reviews (snd (likeRoute e q i d)) = Reviews d
   \<or> (\<exists>r. findById d i = Some r \<and> validate_modified r (toggleLike (req_id q) r)
         \<and> Reviews (snd (likeRoute e q i d)) = (Reviews d)[i := toggleLike (req_id q) r])"
proof (cases "findById d i")
  case None
  then show ?thesis by (simp add: likeRoute_def)
next
  case (Some r)
  obtain ok d1 where s: "saveExisting e i r (toggleLike (req_id q) r) d = (ok, d1)"
    by (cases "saveExisting e i r (toggleLike (req_id q) r) d")
  from saveExisting_Reviews [of e i r "toggleLike (req_id q) r" d] s
  have d1: "Reviews d1 = (if ok then (Reviews d)[i := toggleLike (req_id q) r] else Reviews d)"
    by simp
  from saveExisting_validated [of e i r "toggleLike (req_id q) r" d] s
  have v: "ok \<Longrightarrow> validate_modified r (toggleLike (req_id q) r)" by simp
  show ?thesis
  proof (cases ok)
    case True
    with v have "validate_modified r (toggleLike (req_id q) r)" by simp
    moreover from True d1 have "Reviews d1 = (Reviews d)[i := toggleLike (req_id q) r]" by simp
    ultimately show ?thesis
      using likeRoute_Reviews [of e q i d] Some by auto
  next
    case False
    with d1 have "Reviews d1 = Reviews d" by simp
    with False have "Reviews (snd (likeRoute e q i d)) = Reviews d"
      by (simp add: likeRoute_def Let_def Some s)
    then show ?thesis by blast
  qed
qed


lemma request_keeps_well_formed:
  assumes "request d d'"
    and "\<forall>r\<in>set (Reviews d). valid_rating (rating r) \<and> votes_ok (helpful r) \<and> votes_ok (likes r)"
  shows "\<forall>r\<in>set (Reviews d'). valid_rating (rating r) \<and> votes_ok (helpful r) \<and> votes_ok (likes r)"
proof -
  let ?wf = "\<lambda>r. valid_rating (rating r) \<and> votes_ok (helpful r) \<and> votes_ok (likes r)"
  have keep: "Reviews d' = Reviews d \<Longrightarrow> ?thesis" using assms(2) by simp
  have replace: ?thesis
    if f: "findById d i = Some r" and v: "validate_modified r x"
      and x: "x = applyAllowedFields b r \<or> x = r\<lparr>isActive := False\<rparr>
              \<or> x = markHelpful u r \<or> x = toggleLike u r"
      and r: "Reviews d' = (Reviews d)[i := x]" for i r x b u
  proof -
    from findById_nth [OF f] have "r \<in> set (Reviews d)" by (metis nth_mem)
    with assms(2) have "?wf r" by blast
    then have "?wf x" using replaced_review_well_formed [OF _ _ _ v x] by blast
    moreover have "set (Reviews d') \<subseteq> insert x (set (Reviews d))"
      unfolding r by (rule set_update_subset_insert)
    ultimately show ?thesis using assms(2) by blast
  qed
  from assms(1) show ?thesis
  proof cases
    case (req_create e q b)
    from createReview_appends_valid [of e q b d] show ?thesis
    proof
      assume "Reviews (snd (createReview e q b d)) = Reviews d"
      with req_create keep show ?thesis by simp
    next
      assume a: "Reviews (snd (createReview e q b d)) = Reviews d @ [newReview e q b]
                 \<and> validate_new (newReview e q b)"
      then have "?wf (newReview e q b)" using newReview_well_formed by blast
      with a req_create assms(2) show ?thesis by auto
    qed
  next
    case (req_update e q i ub)
    with updateReview_replaces_valid [of e q i ub d] keep replace [of i _ _ ub]
    show ?thesis by blast
  next
    case (req_delete e q i)
    with deleteReview_replaces_valid [of e q i d] keep replace [of i]
    show ?thesis by blast
  next
    case (req_helpful e q i)
    with helpfulRoute_replaces_valid [of e q i d] keep replace [of i]
    show ?thesis by blast
  next
    case (req_like e q i)
    with likeRoute_replaces_valid [of e q i d] keep replace [of i]
    show ?thesis by blast
  next
    case req_other
    with keep show ?thesis by simp
  qed
qed

text \<open>
  From an empty collection on, whatever requests are served and whatever fails in them,
  every review in the collection is well formed: the hypotheses on voter arrays and
  ratings in the theorems of this theory hold in every store that requests have built.
\<close>

lemma requests_keep_well_formed:
  assumes "request\<^sup>*\<^sup>* d0 d" and "Reviews d0 = []"
  shows "\<forall>r\<in>set (Reviews d). valid_rating (rating r) \<and> votes_ok (helpful r) \<and> votes_ok (likes r)"
  using assms
proof (induction rule: rtranclp_induct)
  case base
  then show ?case by simp
next
  case (step y z)
  then show ?case using request_keeps_well_formed [of y z] by blast
qed

end
